theory Spec2Isabelle
  imports Main "HOL-Library.Multiset"
begin

section \<open>Errors (pkg/errors/errors.go)\<close>

text \<open>
  \<^verbatim>\<open>AppError\<close> is a struct with a type tag and a message. The two constructors and
  the two recognisers are translated one to one.
\<close>

record AppError =
  Type :: string
  Message :: string

definition ErrTypeValidation :: string where
  "ErrTypeValidation = ''validation''"

definition ErrTypeNotFound :: string where
  "ErrTypeNotFound = ''not_found''"

definition NewValidationError :: "string \<Rightarrow> AppError" where
  "NewValidationError msg = \<lparr>Type = ErrTypeValidation, Message = msg\<rparr>"

definition NewNotFoundError :: "string \<Rightarrow> AppError" where
  "NewNotFoundError msg = \<lparr>Type = ErrTypeNotFound, Message = msg\<rparr>"

definition IsValidation :: "AppError \<Rightarrow> bool" where
  "IsValidation err = (Type err = ErrTypeValidation)"

definition IsNotFound :: "AppError \<Rightarrow> bool" where
  "IsNotFound err = (Type err = ErrTypeNotFound)"

text \<open>
  A call either returns an \<^verbatim>\<open>error\<close> value (always an \<^verbatim>\<open>*AppError\<close> in this
  program) or stops in a Go run-time panic (nil dereference, slice bounds out of range).
\<close>

datatype fault = Err AppError | Panic

section \<open>The task entity (package domain)\<close>

text \<open>
  \<^verbatim>\<open>time.Time\<close> is modelled by the instant it denotes, an integer number of
  nanoseconds counted from Go's zero time (January 1, year 1, 00:00:00 UTC), so that
  \<^verbatim>\<open>IsZero\<close> is equality with 0 and \<^verbatim>\<open>After\<close>/\<^verbatim>\<open>Before\<close> are the
  strict orders on instants. The value of \<^verbatim>\<open>time.Now()\<close> is a parameter \<open>now\<close> of
  every operation that reads the clock.
\<close>

type_synonym time = int

definition IsZero :: "time \<Rightarrow> bool" where
  "IsZero t = (t = 0)"

definition After :: "time \<Rightarrow> time \<Rightarrow> bool" where
  "After t u = (u < t)"

definition Before :: "time \<Rightarrow> time \<Rightarrow> bool" where
  "Before t u = (t < u)"

type_synonym TaskStatus = string

definition StatusPending :: TaskStatus where
  "StatusPending = ''PENDING''"

definition StatusInProgress :: TaskStatus where
  "StatusInProgress = ''IN_PROGRESS''"

definition StatusDone :: TaskStatus where
  "StatusDone = ''DONE''"

record Task =
  ID :: string
  Title :: string
  Description :: string
  Status :: TaskStatus
  DueDate :: time

definition ErrTitleRequired :: string where
  "ErrTitleRequired = ''title is required''"

definition ErrDueDateRequired :: string where
  "ErrDueDateRequired = ''due_date is required''"

definition ErrDueDatePast :: string where
  "ErrDueDatePast = ''due_date must be in the future''"

definition ErrStatusInvalid :: string where
  "ErrStatusInvalid = ''invalid status''"

definition isValidStatus :: "TaskStatus \<Rightarrow> bool" where
  "isValidStatus s = (s = StatusPending \<or> s = StatusInProgress \<or> s = StatusDone)"

text \<open>The input structs; a nil pointer field is \<open>None\<close>.\<close>

record CreateTaskInput =
  Title :: string
  Description :: string
  Status :: "TaskStatus option"
  DueDate :: time

record UpdateTaskInput =
  Title :: "string option"
  Description :: "string option"
  Status :: "TaskStatus option"
  DueDate :: "time option"

record TaskFilter =
  Status :: "TaskStatus option"
  Page :: int
  PageSize :: int

section \<open>Memory and the in-memory repository\<close>

text \<open>
  The repository keeps \<^verbatim>\<open>map[string]*Task\<close>: pointers, which callers may share. The
  model therefore has an explicit store of \<^verbatim>\<open>Task\<close> objects: the address of an object
  is its index in \<open>heap\<close>, \<^verbatim>\<open>&Task{...}\<close> and \<^verbatim>\<open>copy := *task; &copy\<close> append a new
  object, and nothing is ever freed. \<open>tasks\<close> is the map of the one repository the program
  builds. \<open>uuid_calls\<close> counts the calls of \<^verbatim>\<open>uuid.NewString()\<close> made so far; the
  generator itself (package github.com/google/uuid, outside the repository) is the
  parameter \<open>gen\<close>: the \<open>n\<close>-th call returns \<open>gen n\<close>. (The generator panics
  only when the system's source of randomness fails; that is left out.)
\<close>

type_synonym addr = nat

record world =
  heap :: "Task list"
  tasks :: "string \<Rightarrow> addr option"
  uuid_calls :: nat

definition alloc :: "Task \<Rightarrow> world \<Rightarrow> addr \<times> world" where
  "alloc t w = (length (heap w), w\<lparr>heap := heap w @ [t]\<rparr>)"

definition load :: "addr \<Rightarrow> world \<Rightarrow> Task option" where
  "load p w = (if p < length (heap w) then Some (heap w ! p) else None)"

text \<open>A field assignment \<^verbatim>\<open>p.f = v\<close> through a non-nil pointer, by the service or by a caller.\<close>

definition assign :: "addr \<Rightarrow> (Task \<Rightarrow> Task) \<Rightarrow> world \<Rightarrow> world" where
  "assign p f w = w\<lparr>heap := (heap w)[p := f (heap w ! p)]\<rparr>"

definition NewInMemoryTaskRepository :: world where
  "NewInMemoryTaskRepository = \<lparr>heap = [], tasks = Map.empty, uuid_calls = 0\<rparr>"

text \<open>
  \<^verbatim>\<open>Create\<close> draws the identifier first, writes it through the caller's pointer and
  stores that same pointer. A nil (unallocated) pointer panics at the write.
\<close>

definition Create :: "(nat \<Rightarrow> string) \<Rightarrow> addr \<Rightarrow> world \<Rightarrow> (fault + unit) \<times> world" where
  "Create gen task w =
     (let ident = gen (uuid_calls w);
          w1 = w\<lparr>uuid_calls := Suc (uuid_calls w)\<rparr>
      in if task < length (heap w1)
         then (Inr (), (assign task (\<lambda>t. t\<lparr>ID := ident\<rparr>) w1)\<lparr>tasks := (tasks w1)(ident \<mapsto> task)\<rparr>)
         else (Inl Panic, w1))"

definition GetByID :: "string \<Rightarrow> world \<Rightarrow> (fault + addr) \<times> world" where
  "GetByID ident w =
     (case tasks w ident of
        None \<Rightarrow> (Inl (Err (NewNotFoundError ''task not found'')), w)
      | Some task \<Rightarrow>
          (case load task w of
             None \<Rightarrow> (Inl Panic, w)
           | Some t \<Rightarrow> (let (copy, w1) = alloc t w in (Inr copy, w1))))"

definition Update :: "addr \<Rightarrow> world \<Rightarrow> (fault + unit) \<times> world" where
  "Update task w =
     (case load task w of
        None \<Rightarrow> (Inl Panic, w)
      | Some t \<Rightarrow>
          (case tasks w (Task.ID t) of
             None \<Rightarrow> (Inl (Err (NewNotFoundError ''task not found'')), w)
           | Some _ \<Rightarrow>
               (let (copy, w1) = alloc t w
                in (Inr (), w1\<lparr>tasks := (tasks w1)(Task.ID t \<mapsto> copy)\<rparr>))))"

definition Delete :: "string \<Rightarrow> world \<Rightarrow> (fault + unit) \<times> world" where
  "Delete ident w =
     (case tasks w ident of
        None \<Rightarrow> (Inl (Err (NewNotFoundError ''task not found'')), w)
      | Some _ \<Rightarrow> (Inr (), w\<lparr>tasks := (tasks w)(ident := None)\<rparr>))"

text \<open>
  \<^verbatim>\<open>ListAll\<close> ranges over a Go map, whose iteration order the run time chooses: the
  order taken is the parameter \<open>ks\<close>, a list of the keys. Each element of the result is
  a fresh copy that nothing else references, represented here by its value.
\<close>

definition ListAll :: "string list \<Rightarrow> world \<Rightarrow> Task list" where
  "ListAll ks w =
     List.map_filter (\<lambda>k. case tasks w k of None \<Rightarrow> None | Some t \<Rightarrow> load t w) ks"

text \<open>What the repository holds under each identifier: the object its pointer leads to.\<close>

definition stored :: "world \<Rightarrow> string \<Rightarrow> Task option" where
  "stored w ident = (case tasks w ident of None \<Rightarrow> None | Some p \<Rightarrow> load p w)"

text \<open>Every pointer in the map leads to an allocated object (Go has no dangling pointers).\<close>

definition ptrs_ok :: "world \<Rightarrow> bool" where
  "ptrs_ok w = (\<forall>ident p. tasks w ident = Some p \<longrightarrow> p < length (heap w))"

section \<open>The task service (package domain)\<close>

definition CreateTask ::
  "(nat \<Rightarrow> string) \<Rightarrow> time \<Rightarrow> CreateTaskInput \<Rightarrow> world \<Rightarrow> (fault + addr) \<times> world" where
  "CreateTask gen now input w =
     (if CreateTaskInput.Title input = ''''
      then (Inl (Err (NewValidationError ErrTitleRequired)), w)
      else if IsZero (CreateTaskInput.DueDate input)
      then (Inl (Err (NewValidationError ErrDueDateRequired)), w)
      else if \<not> After (CreateTaskInput.DueDate input) now
      then (Inl (Err (NewValidationError ErrDueDatePast)), w)
      else if (case CreateTaskInput.Status input of None \<Rightarrow> False | Some s \<Rightarrow> \<not> isValidStatus s)
      then (Inl (Err (NewValidationError ErrStatusInvalid)), w)
      else
        (let status = (case CreateTaskInput.Status input of None \<Rightarrow> StatusPending | Some s \<Rightarrow> s);
             (task, w1) = alloc \<lparr>ID = '''',
                                 Title = CreateTaskInput.Title input,
                                 Description = CreateTaskInput.Description input,
                                 Status = status,
                                 DueDate = CreateTaskInput.DueDate input\<rparr> w
         in case Create gen task w1 of
              (Inl err, w2) \<Rightarrow> (Inl err, w2)
            | (Inr _, w2) \<Rightarrow> (Inr task, w2)))"

definition GetTask :: "string \<Rightarrow> world \<Rightarrow> (fault + addr) \<times> world" where
  "GetTask ident w =
     (case GetByID ident w of
        (Inl err, w1) \<Rightarrow> (Inl err, w1)
      | (Inr task, w1) \<Rightarrow> (Inr task, w1))"

text \<open>
  \<^verbatim>\<open>UpdateTask\<close> works on the copy that \<^verbatim>\<open>GetByID\<close> returned. Its four blocks
  (title, description, status, due date) each either return an error or assign one field
  of that copy; they are the four functions below, run in the source's order.
\<close>

definition update_title :: "UpdateTaskInput \<Rightarrow> addr \<Rightarrow> world \<Rightarrow> (fault + unit) \<times> world" where
  "update_title input task w =
     (case UpdateTaskInput.Title input of
        None \<Rightarrow> (Inr (), w)
      | Some v \<Rightarrow>
          if v = '''' then (Inl (Err (NewValidationError ErrTitleRequired)), w)
          else (Inr (), assign task (\<lambda>t. t\<lparr>Task.Title := v\<rparr>) w))"

definition update_description :: "UpdateTaskInput \<Rightarrow> addr \<Rightarrow> world \<Rightarrow> (fault + unit) \<times> world" where
  "update_description input task w =
     (case UpdateTaskInput.Description input of
        None \<Rightarrow> (Inr (), w)
      | Some v \<Rightarrow> (Inr (), assign task (\<lambda>t. t\<lparr>Task.Description := v\<rparr>) w))"

definition update_status :: "UpdateTaskInput \<Rightarrow> addr \<Rightarrow> world \<Rightarrow> (fault + unit) \<times> world" where
  "update_status input task w =
     (case UpdateTaskInput.Status input of
        None \<Rightarrow> (Inr (), w)
      | Some v \<Rightarrow>
          if \<not> isValidStatus v then (Inl (Err (NewValidationError ErrStatusInvalid)), w)
          else (Inr (), assign task (\<lambda>t. t\<lparr>Task.Status := v\<rparr>) w))"

definition update_due_date ::
  "time \<Rightarrow> UpdateTaskInput \<Rightarrow> addr \<Rightarrow> world \<Rightarrow> (fault + unit) \<times> world" where
  "update_due_date now input task w =
     (case UpdateTaskInput.DueDate input of
        None \<Rightarrow> (Inr (), w)
      | Some v \<Rightarrow>
          if IsZero v then (Inl (Err (NewValidationError ErrDueDateRequired)), w)
          else if \<not> After v now then (Inl (Err (NewValidationError ErrDueDatePast)), w)
          else (Inr (), assign task (\<lambda>t. t\<lparr>Task.DueDate := v\<rparr>) w))"

definition UpdateTask ::
  "time \<Rightarrow> string \<Rightarrow> UpdateTaskInput \<Rightarrow> world \<Rightarrow> (fault + addr) \<times> world" where
  "UpdateTask now ident input w =
     (case GetByID ident w of
        (Inl err, w1) \<Rightarrow> (Inl err, w1)
      | (Inr task, w1) \<Rightarrow>
     (case update_title input task w1 of
        (Inl err, w2) \<Rightarrow> (Inl err, w2)
      | (Inr _, w2) \<Rightarrow>
     (case update_description input task w2 of
        (Inl err, w3) \<Rightarrow> (Inl err, w3)
      | (Inr _, w3) \<Rightarrow>
     (case update_status input task w3 of
        (Inl err, w4) \<Rightarrow> (Inl err, w4)
      | (Inr _, w4) \<Rightarrow>
     (case update_due_date now input task w4 of
        (Inl err, w5) \<Rightarrow> (Inl err, w5)
      | (Inr _, w5) \<Rightarrow>
     (case Update task w5 of
        (Inl err, w6) \<Rightarrow> (Inl err, w6)
      | (Inr _, w6) \<Rightarrow> (Inr task, w6)))))))"

definition DeleteTask :: "string \<Rightarrow> world \<Rightarrow> (fault + unit) \<times> world" where
  "DeleteTask ident w = Delete ident w"

subsection \<open>ListTasks\<close>

text \<open>
  Go's \<^verbatim>\<open>int\<close> is a 64-bit two's-complement integer on the platforms the server is
  built for; arithmetic on it wraps silently. \<open>wrap64\<close> is that wrap-around on
  mathematical integers.
\<close>

definition wrap64 :: "int \<Rightarrow> int" where
  "wrap64 x = (x + 2 ^ 63) mod 2 ^ 64 - 2 ^ 63"

text \<open>
  \<^verbatim>\<open>sort.Slice\<close> belongs to Go's standard library; it is the parameter \<open>srt\<close>, which
  receives the comparison closure and the slice and returns the slice as the call leaves
  it. \<open>byDueDate\<close> is the closure the source passes. The library's own code is
  \<open>sort_Slice\<close> in the next section.
\<close>

definition byDueDate :: "Task \<Rightarrow> Task \<Rightarrow> bool" where
  "byDueDate a b = Before (Task.DueDate a) (Task.DueDate b)"

text \<open>The filter block: with a status in the filter, only the tasks of that status are kept.\<close>

definition filterByStatus :: "TaskFilter \<Rightarrow> Task list \<Rightarrow> Task list" where
  "filterByStatus flt ts =
     (case TaskFilter.Status flt of
        None \<Rightarrow> ts
      | Some s \<Rightarrow> filter (\<lambda>t. Task.Status t = s) ts)"

text \<open>
  The pagination block. The slice expression \<^verbatim>\<open>tasks[start:end]\<close> panics unless
  \<open>0 \<le> start \<le> end \<le> cap\<close>; \<open>end\<close> never exceeds the length here.
\<close>

definition paginate :: "TaskFilter \<Rightarrow> Task list \<Rightarrow> fault + Task list" where
  "paginate flt ts =
     (let page = (if Page flt \<le> 0 then 1 else Page flt);
          size = (if PageSize flt \<le> 0 then 10 else PageSize flt);
          start = wrap64 (wrap64 (page - 1) * size)
      in if start \<ge> int (length ts) then Inr []
         else
           (let end0 = wrap64 (start + size);
                end = (if end0 > int (length ts) then int (length ts) else end0)
            in if 0 \<le> start \<and> start \<le> end
               then Inr (take (nat (end - start)) (drop (nat start) ts))
               else Inl Panic))"

definition ListTasks ::
  "((Task \<Rightarrow> Task \<Rightarrow> bool) \<Rightarrow> Task list \<Rightarrow> Task list) \<Rightarrow> string list \<Rightarrow> TaskFilter \<Rightarrow> world
     \<Rightarrow> fault + Task list" where
  "ListTasks srt ks flt w =
     paginate flt (srt byDueDate (filterByStatus flt (ListAll ks w)))"

section \<open>Go's sort.Slice (package sort of the standard library)\<close>

text \<open>
  \<^verbatim>\<open>ListTasks\<close> sorts with \<^verbatim>\<open>sort.Slice\<close>, which is pattern-defeating quicksort
  (\<^verbatim>\<open>pdqsort_func\<close> in \<^verbatim>\<open>zsortfunc.go\<close>, Go 1.19 and later). The functions below follow
  that file one to one. The slice is a list, \<^verbatim>\<open>data.Less(i, j)\<close> is
  \<open>lt (data ! i) (data ! j)\<close>, and \<^verbatim>\<open>data.Swap(i, j)\<close> is \<open>Swap data i j\<close>; every index
  the library passes lies inside the slice. A \<^verbatim>\<open>for\<close> loop over a fixed range is a
  \<open>foldl\<close>, any other loop a recursive function.
\<close>

datatype sortedHint = unknownHint | increasingHint | decreasingHint

definition Swap :: "'a list \<Rightarrow> nat \<Rightarrow> nat \<Rightarrow> 'a list" where
  "Swap data i j = data[i := data ! j, j := data ! i]"

text \<open>\<^verbatim>\<open>for j := i; j > a && data.Less(j, j-1); j-- { data.Swap(j, j-1) }\<close>\<close>

fun insertionSort_inner :: "('a \<Rightarrow> 'a \<Rightarrow> bool) \<Rightarrow> nat \<Rightarrow> nat \<Rightarrow> 'a list \<Rightarrow> 'a list" where
  "insertionSort_inner lt a 0 data = data"
| "insertionSort_inner lt a (Suc j) data =
     (if Suc j > a \<and> lt (data ! Suc j) (data ! j)
      then insertionSort_inner lt a j (Swap data (Suc j) j)
      else data)"

definition insertionSort_func :: "('a \<Rightarrow> 'a \<Rightarrow> bool) \<Rightarrow> 'a list \<Rightarrow> nat \<Rightarrow> nat \<Rightarrow> 'a list" where
  "insertionSort_func lt data a b =
     foldl (\<lambda>data i. insertionSort_inner lt a i data) data [a + 1 ..< b]"

function siftDown_func :: "('a \<Rightarrow> 'a \<Rightarrow> bool) \<Rightarrow> 'a list \<Rightarrow> nat \<Rightarrow> nat \<Rightarrow> nat \<Rightarrow> 'a list" where
  "siftDown_func lt data root hi first =
     (if 2 * root + 1 \<ge> hi then data
      else
        (let child = (if 2 * root + 1 + 1 < hi
                         \<and> lt (data ! (first + (2 * root + 1))) (data ! (first + (2 * root + 1) + 1))
                      then 2 * root + 1 + 1 else 2 * root + 1)
         in if \<not> lt (data ! (first + root)) (data ! (first + child)) then data
            else siftDown_func lt (Swap data (first + root) (first + child)) child hi first))"
  by pat_completeness auto
termination
  by (relation "measure (\<lambda>(lt, data, root, hi, first). hi - root)") (auto split: if_splits)

declare siftDown_func.simps [simp del]

definition heapSort_func :: "('a \<Rightarrow> 'a \<Rightarrow> bool) \<Rightarrow> 'a list \<Rightarrow> nat \<Rightarrow> nat \<Rightarrow> 'a list" where
  "heapSort_func lt data a b =
     (let first = a; lo = 0; hi = b - a;
          data = foldl (\<lambda>data i. siftDown_func lt data i hi first) data
                   (rev [0 ..< (hi - 1) div 2 + 1])
      in foldl (\<lambda>data i. siftDown_func lt (Swap data first (first + i)) lo i first) data
           (rev [0 ..< hi]))"

text \<open>\<^verbatim>\<open>bits.Len\<close>: the number of bits needed to write \<open>n\<close>.\<close>

fun bits_Len :: "nat \<Rightarrow> nat" where
  "bits_Len n = (if n = 0 then 0 else Suc (bits_Len (n div 2)))"

declare bits_Len.simps [simp del]

definition nextPowerOfTwo :: "nat \<Rightarrow> nat" where
  "nextPowerOfTwo len = 2 ^ bits_Len len"

text \<open>
  \<^verbatim>\<open>breakPatterns_func\<close> swaps three elements near the middle with elements at
  pseudo-random places. The places come from an xorshift generator seeded with the length;
  one step of that generator is the parameter \<open>rnd\<close>. Masking with \<open>modulus - 1\<close> is the
  remainder modulo the power of two \<open>modulus\<close>.
\<close>

definition breakPatterns_func :: "(nat \<Rightarrow> nat) \<Rightarrow> 'a list \<Rightarrow> nat \<Rightarrow> nat \<Rightarrow> 'a list" where
  "breakPatterns_func rnd data a b =
     (let len = b - a in
      if len \<ge> 8 then
        (let modulus = nextPowerOfTwo len;
             idx = a + (len div 4) * 2 - 1;
             step = (\<lambda>(data, random) i.
                       let random = rnd random;
                           other = random mod modulus;
                           other = (if other \<ge> len then other - len else other)
                       in (Swap data (idx - 1 + i) (a + other), random))
         in fst (foldl step (data, len) [0 ..< 3]))
      else data)"

definition order2_func ::
  "('a \<Rightarrow> 'a \<Rightarrow> bool) \<Rightarrow> 'a list \<Rightarrow> nat \<Rightarrow> nat \<Rightarrow> nat \<Rightarrow> nat \<times> nat \<times> nat" where
  "order2_func lt data a b swaps =
     (if lt (data ! b) (data ! a) then (b, a, swaps + 1) else (a, b, swaps))"

definition median_func ::
  "('a \<Rightarrow> 'a \<Rightarrow> bool) \<Rightarrow> 'a list \<Rightarrow> nat \<Rightarrow> nat \<Rightarrow> nat \<Rightarrow> nat \<Rightarrow> nat \<times> nat" where
  "median_func lt data a b c swaps =
     (let (a, b, swaps) = order2_func lt data a b swaps;
          (b, c, swaps) = order2_func lt data b c swaps;
          (a, b, swaps) = order2_func lt data a b swaps
      in (b, swaps))"

definition medianAdjacent_func ::
  "('a \<Rightarrow> 'a \<Rightarrow> bool) \<Rightarrow> 'a list \<Rightarrow> nat \<Rightarrow> nat \<Rightarrow> nat \<times> nat" where
  "medianAdjacent_func lt data a swaps = median_func lt data (a - 1) a (a + 1) swaps"

definition choosePivot_func ::
  "('a \<Rightarrow> 'a \<Rightarrow> bool) \<Rightarrow> 'a list \<Rightarrow> nat \<Rightarrow> nat \<Rightarrow> nat \<times> sortedHint" where
  "choosePivot_func lt data a b =
     (let l = b - a;
          swaps = 0;
          i = a + l div 4 * 1;
          j = a + l div 4 * 2;
          k = a + l div 4 * 3;
          (j, swaps) =
            (if l \<ge> 8 then
               (let (i, j, k, swaps) =
                      (if l \<ge> 50 then
                         (let (i, swaps) = medianAdjacent_func lt data i swaps;
                              (j, swaps) = medianAdjacent_func lt data j swaps;
                              (k, swaps) = medianAdjacent_func lt data k swaps
                          in (i, j, k, swaps))
                       else (i, j, k, swaps))
                in median_func lt data i j k swaps)
             else (j, swaps))
      in if swaps = 0 then (j, increasingHint)
         else if swaps = 4 * 3 then (j, decreasingHint)
         else (j, unknownHint))"

function reverseRange_loop :: "'a list \<Rightarrow> nat \<Rightarrow> nat \<Rightarrow> 'a list" where
  "reverseRange_loop data i j =
     (if i < j then reverseRange_loop (Swap data i j) (i + 1) (j - 1) else data)"
  by pat_completeness auto
termination
  by (relation "measure (\<lambda>(data, i, j). j - i)") auto

declare reverseRange_loop.simps [simp del]

definition reverseRange_func :: "'a list \<Rightarrow> nat \<Rightarrow> nat \<Rightarrow> 'a list" where
  "reverseRange_func data a b = reverseRange_loop data a (b - 1)"

text \<open>
  \<^verbatim>\<open>partialInsertionSort_func\<close>: the scan \<^verbatim>\<open>for i < b && !data.Less(i, i-1) { i++ }\<close>,
  the two shifting loops, and the outer loop of at most \<^verbatim>\<open>maxSteps = 5\<close> rounds, which
  gives up at once on ranges shorter than \<^verbatim>\<open>shortestShifting = 50\<close>.
\<close>

function advance_sorted :: "('a \<Rightarrow> 'a \<Rightarrow> bool) \<Rightarrow> 'a list \<Rightarrow> nat \<Rightarrow> nat \<Rightarrow> nat" where
  "advance_sorted lt data b i =
     (if i < b \<and> \<not> lt (data ! i) (data ! (i - 1)) then advance_sorted lt data b (i + 1) else i)"
  by pat_completeness auto
termination
  by (relation "measure (\<lambda>(lt, data, b, i). b - i)") auto

declare advance_sorted.simps [simp del]

fun shift_left :: "('a \<Rightarrow> 'a \<Rightarrow> bool) \<Rightarrow> nat \<Rightarrow> 'a list \<Rightarrow> 'a list" where
  "shift_left lt 0 data = data"
| "shift_left lt (Suc j) data =
     (if \<not> lt (data ! Suc j) (data ! j) then data
      else shift_left lt j (Swap data (Suc j) j))"

function shift_right :: "('a \<Rightarrow> 'a \<Rightarrow> bool) \<Rightarrow> 'a list \<Rightarrow> nat \<Rightarrow> nat \<Rightarrow> 'a list" where
  "shift_right lt data b j =
     (if j < b
      then (if \<not> lt (data ! j) (data ! (j - 1)) then data
            else shift_right lt (Swap data j (j - 1)) b (j + 1))
      else data)"
  by pat_completeness auto
termination
  by (relation "measure (\<lambda>(lt, data, b, j). b - j)") auto

declare shift_right.simps [simp del]

fun partialInsertionSort_loop ::
  "('a \<Rightarrow> 'a \<Rightarrow> bool) \<Rightarrow> 'a list \<Rightarrow> nat \<Rightarrow> nat \<Rightarrow> nat \<Rightarrow> nat \<Rightarrow> bool \<times> 'a list" where
  "partialInsertionSort_loop lt data a b i 0 = (False, data)"
| "partialInsertionSort_loop lt data a b i (Suc steps) =
     (let i = advance_sorted lt data b i in
      if i = b then (True, data)
      else if b - a < 50 then (False, data)
      else
        (let data = Swap data i (i - 1);
             data = (if i - a \<ge> 2 then shift_left lt (i - 1) data else data);
             data = (if b - i \<ge> 2 then shift_right lt data b (i + 1) else data)
         in partialInsertionSort_loop lt data a b i steps))"

definition partialInsertionSort_func ::
  "('a \<Rightarrow> 'a \<Rightarrow> bool) \<Rightarrow> 'a list \<Rightarrow> nat \<Rightarrow> nat \<Rightarrow> bool \<times> 'a list" where
  "partialInsertionSort_func lt data a b = partialInsertionSort_loop lt data a b (a + 1) 5"

text \<open>
  The two partitioning functions share one loop shape:
  \<^verbatim>\<open>for i <= j && P(i) { i++ }\<close>, \<^verbatim>\<open>for i <= j && Q(j) { j-- }\<close>, then stop when
  \<open>i > j\<close> or swap, step both and repeat. \<open>P\<close> and \<open>Q\<close> compare with the pivot, which
  sits at index \<open>a\<close> and is never moved by the loop.
\<close>

function scan_up :: "('a \<Rightarrow> bool) \<Rightarrow> 'a list \<Rightarrow> nat \<Rightarrow> nat \<Rightarrow> nat" where
  "scan_up P data i j = (if i \<le> j \<and> P (data ! i) then scan_up P data (i + 1) j else i)"
  by pat_completeness auto
termination
  by (relation "measure (\<lambda>(P, data, i, j). Suc j - i)") auto

declare scan_up.simps [simp del]

fun scan_down :: "('a \<Rightarrow> bool) \<Rightarrow> 'a list \<Rightarrow> nat \<Rightarrow> nat \<Rightarrow> nat" where
  "scan_down Q data i 0 = 0"
| "scan_down Q data i (Suc j) =
     (if i \<le> Suc j \<and> Q (data ! Suc j) then scan_down Q data i j else Suc j)"

function two_pointer_loop ::
  "('a \<Rightarrow> bool) \<Rightarrow> ('a \<Rightarrow> bool) \<Rightarrow> 'a list \<Rightarrow> nat \<Rightarrow> nat \<Rightarrow> 'a list \<times> nat \<times> nat" where
  "two_pointer_loop P Q data i j =
     (let i = scan_up P data i j;
          j = scan_down Q data i j
      in if i > j then (data, i, j)
         else two_pointer_loop P Q (Swap data i j) (i + 1) (j - 1))"
  by pat_completeness auto
termination
proof (relation "measure (\<lambda>(P, Q, data, i, j). Suc j - i)", goal_cases)
  case 1
  show ?case by simp
next
  case (2 P Q data i j i' j')
  have "i \<le> scan_up P data i j"
  proof (induction P data i j rule: scan_up.induct)
    case (1 P data i j)
    show ?case
    proof (cases "i \<le> j \<and> P (data ! i)")
      case True
      with 1 have "i + 1 \<le> scan_up P data (i + 1) j" by simp
      with True show ?thesis by (subst scan_up.simps) simp
    next
      case False
      then show ?thesis by (subst scan_up.simps) auto
    qed
  qed
  moreover have "scan_down Q data i' j \<le> j"
    by (induction j) auto
  ultimately show ?case using 2 by auto
qed

declare two_pointer_loop.simps [simp del]

definition partition_func ::
  "('a \<Rightarrow> 'a \<Rightarrow> bool) \<Rightarrow> 'a list \<Rightarrow> nat \<Rightarrow> nat \<Rightarrow> nat \<Rightarrow> nat \<times> bool \<times> 'a list" where
  "partition_func lt data a b pivot =
     (let data = Swap data a pivot;
          i = scan_up (\<lambda>x. lt x (data ! a)) data (a + 1) (b - 1);
          j = scan_down (\<lambda>x. \<not> lt x (data ! a)) data i (b - 1)
      in if i > j then (j, True, Swap data j a)
         else
           (let (data, i, j) =
                  two_pointer_loop (\<lambda>x. lt x (data ! a)) (\<lambda>x. \<not> lt x (data ! a))
                    (Swap data i j) (i + 1) (j - 1)
            in (j, False, Swap data j a)))"

definition partitionEqual_func ::
  "('a \<Rightarrow> 'a \<Rightarrow> bool) \<Rightarrow> 'a list \<Rightarrow> nat \<Rightarrow> nat \<Rightarrow> nat \<Rightarrow> nat \<times> 'a list" where
  "partitionEqual_func lt data a b pivot =
     (let data = Swap data a pivot;
          (data, i, j) =
             two_pointer_loop (\<lambda>x. \<not> lt (data ! a) x) (\<lambda>x. lt (data ! a) x) data (a + 1) (b - 1)
      in (i, data))"

text \<open>
  \<^verbatim>\<open>pdqsort_func\<close>: each turn of its \<^verbatim>\<open>for\<close> loop is a call of the function; the
  recursive call on the shorter side starts with fresh flags, the loop goes on with the
  other side.
\<close>

function pdqsort_func ::
  "('a \<Rightarrow> 'a \<Rightarrow> bool) \<Rightarrow> (nat \<Rightarrow> nat) \<Rightarrow> 'a list \<Rightarrow> nat \<Rightarrow> nat \<Rightarrow> nat \<Rightarrow> bool \<Rightarrow> bool \<Rightarrow> 'a list" where
  "pdqsort_func lt rnd data a b limit wasBalanced wasPartitioned =
     (if b - a \<le> 12 then insertionSort_func lt data a b
      else if limit = 0 then heapSort_func lt data a b
      else
        (let (data, limit) =
               (if \<not> wasBalanced then (breakPatterns_func rnd data a b, limit - 1) else (data, limit));
             (pivot, hint) = choosePivot_func lt data a b;
             (data, pivot, hint) =
               (if hint = decreasingHint
                then (reverseRange_func data a b, (b - 1) - (pivot - a), increasingHint)
                else (data, pivot, hint));
             (sorted, data) =
               (if wasBalanced \<and> wasPartitioned \<and> hint = increasingHint
                then partialInsertionSort_func lt data a b
                else (False, data))
         in if sorted then data
            else if a > 0 \<and> \<not> lt (data ! (a - 1)) (data ! pivot)
            then
              (let (mid, data) = partitionEqual_func lt data a b pivot
               in pdqsort_func lt rnd data mid b limit wasBalanced wasPartitioned)
            else
              (let (mid, alreadyPartitioned, data) = partition_func lt data a b pivot;
                   leftLen = mid - a;
                   rightLen = b - mid;
                   balanceThreshold = (b - a) div 8
               in if leftLen < rightLen
                  then pdqsort_func lt rnd (pdqsort_func lt rnd data a mid limit True True)
                         (mid + 1) b limit (leftLen \<ge> balanceThreshold) alreadyPartitioned
                  else pdqsort_func lt rnd (pdqsort_func lt rnd data (mid + 1) b limit True True)
                         a mid limit (rightLen \<ge> balanceThreshold) alreadyPartitioned)))"
  by pat_completeness auto
termination
proof -
  have up: "i \<le> scan_up P data i j" for P :: "'a \<Rightarrow> bool" and data i j
  proof (induction P data i j rule: scan_up.induct)
    case (1 P data i j)
    show ?case
    proof (cases "i \<le> j \<and> P (data ! i)")
      case True
      with 1 have "i + 1 \<le> scan_up P data (i + 1) j" by simp
      with True show ?thesis by (subst scan_up.simps) simp
    next
      case False
      then show ?thesis by (subst scan_up.simps) auto
    qed
  qed
  have down_le: "scan_down Q data i j \<le> j" for Q :: "'a \<Rightarrow> bool" and data i j
    by (induction j) auto
  have down_ge: "a \<le> scan_down Q data i j" if "a < i" "a \<le> j"
    for Q :: "'a \<Rightarrow> bool" and data a i j
    using that by (induction j) auto
  have loop: "i \<le> i' \<and> j' \<le> j \<and> (a < i \<and> a \<le> j \<longrightarrow> a \<le> j')"
    if "two_pointer_loop P Q data i j = (d, i', j')"
    for P Q :: "'a \<Rightarrow> bool" and data d a i j i' j'
    using that
  proof (induction P Q data i j arbitrary: d i' j' rule: two_pointer_loop.induct)
    case (1 P Q data i j)
    let ?i = "scan_up P data i j"
    let ?j = "scan_down Q data ?i j"
    have i: "i \<le> ?i" by (rule up)
    have j: "?j \<le> j" by (rule down_le)
    have ja: "a < i \<and> a \<le> j \<longrightarrow> a \<le> ?j" using i by (auto intro: down_ge)
    show ?case
    proof (cases "?i > ?j")
      case True
      with "1.prems" have "i' = ?i" "j' = ?j"
        by (subst (asm) two_pointer_loop.simps, simp add: Let_def)+
      with i j ja show ?thesis by simp
    next
      case False
      with "1.prems" have r: "two_pointer_loop P Q (Swap data ?i ?j) (?i + 1) (?j - 1) = (d, i', j')"
        by (subst (asm) two_pointer_loop.simps) (simp add: Let_def)
      from "1.IH" [OF refl refl _ r] False have
        "?i + 1 \<le> i' \<and> j' \<le> ?j - 1 \<and> (a < ?i + 1 \<and> a \<le> ?j - 1 \<longrightarrow> a \<le> j')" by simp
      with i j False show ?thesis by auto
    qed
  qed
  have part: "a \<le> mid \<and> mid < b"
    if "(mid, p, d) = partition_func lt data a b pivot" and "a < b"
    for lt :: "'a \<Rightarrow> 'a \<Rightarrow> bool" and data d a b pivot mid p
  proof -
    let ?data = "Swap data a pivot"
    let ?i = "scan_up (\<lambda>x. lt x (?data ! a)) ?data (a + 1) (b - 1)"
    let ?j = "scan_down (\<lambda>x. \<not> lt x (?data ! a)) ?data ?i (b - 1)"
    have i: "a + 1 \<le> ?i" by (rule up)
    have j: "?j \<le> b - 1" by (rule down_le)
    have ja: "a \<le> ?j" using i that(2) by (intro down_ge) auto
    show ?thesis
    proof (cases "?i > ?j")
      case True
      with that(1) have "mid = ?j" by (simp add: partition_func_def Let_def)
      with j ja that(2) show ?thesis by auto
    next
      case False
      obtain d' i' j' where t:
        "two_pointer_loop (\<lambda>x. lt x (?data ! a)) (\<lambda>x. \<not> lt x (?data ! a))
           (Swap ?data ?i ?j) (?i + 1) (?j - 1) = (d', i', j')"
        using prod_cases3 by blast
      with False that(1) have "mid = j'" by (simp add: partition_func_def Let_def)
      moreover from loop [OF t, of a] i False have "j' \<le> ?j - 1 \<and> a \<le> j'" by auto
      ultimately show ?thesis using j that(2) by auto
    qed
  qed
  have part_eq: "a < mid"
    if "(mid, d) = partitionEqual_func lt data a b pivot"
    for lt :: "'a \<Rightarrow> 'a \<Rightarrow> bool" and data d a b pivot mid
  proof -
    let ?data = "Swap data a pivot"
    obtain d' i' j' where t:
      "two_pointer_loop (\<lambda>x. \<not> lt (?data ! a) x) (\<lambda>x. lt (?data ! a) x) ?data (a + 1) (b - 1)
         = (d', i', j')"
      using prod_cases3 by blast
    with that have "mid = i'" by (simp add: partitionEqual_func_def Let_def)
    with loop [OF t, of a] show ?thesis by simp
  qed
  show ?thesis
    apply (relation "measure (\<lambda>(lt, rnd, data, a, b, limit, wb, wp). b - a)")
         apply simp
        apply (fastforce dest: part_eq)
       apply (fastforce dest: part)
      apply (fastforce dest: part)
     apply (fastforce dest: part)
    apply (fastforce dest: part)
    done
qed

declare pdqsort_func.simps [simp del]

text \<open>
  \<^verbatim>\<open>sort.Slice(x, less)\<close> sorts the whole slice, with \<^verbatim>\<open>bits.Len(uint(length))\<close> bad
  pivots allowed before the fall back to heap sort.
\<close>

definition sort_Slice :: "(nat \<Rightarrow> nat) \<Rightarrow> ('a \<Rightarrow> 'a \<Rightarrow> bool) \<Rightarrow> 'a list \<Rightarrow> 'a list" where
  "sort_Slice rnd lt x = pdqsort_func lt rnd x 0 (length x) (bits_Len (length x)) True True"

section \<open>Vocabulary of the properties\<close>

subsection \<open>Observations\<close>

text \<open>The value a caller reads through the pointer \<^verbatim>\<open>GetByID\<close> returns, if it returns one.\<close>

definition GetByID_value :: "string \<Rightarrow> world \<Rightarrow> Task option" where
  "GetByID_value ident w =
     (case GetByID ident w of (Inr copy, w1) \<Rightarrow> load copy w1 | (Inl _, _) \<Rightarrow> None)"

text \<open>
  Two worlds that differ at most in the object at address \<open>q\<close>: the footprint of the
  field assignments \<^verbatim>\<open>UpdateTask\<close> makes to its working copy.
\<close>

definition frame_except :: "addr \<Rightarrow> world \<Rightarrow> world \<Rightarrow> bool" where
  "frame_except q w w' =
     (tasks w' = tasks w \<and> uuid_calls w' = uuid_calls w \<and> length (heap w') = length (heap w)
      \<and> (\<forall>p. p \<noteq> q \<longrightarrow> load p w' = load p w))"

subsection \<open>The partial update, as the specification words it\<close>

text \<open>
  \<open>merge_spec\<close> follows the specification, not the source: the identifier is kept, and
  each other field is the supplied value when one is supplied and the stored value
  otherwise. \<open>update_input_valid\<close> collects the specification's rules for the supplied
  fields: a title is not empty, a status is in the enumeration, a due date is non-zero and
  strictly after the current time; a description is unconstrained. Both are compared with
  what \<^verbatim>\<open>UpdateTask\<close> computes.
\<close>

definition merge_spec :: "Task \<Rightarrow> UpdateTaskInput \<Rightarrow> Task" where
  "merge_spec t input =
     \<lparr>ID = Task.ID t,
      Title = (case UpdateTaskInput.Title input of None \<Rightarrow> Task.Title t | Some v \<Rightarrow> v),
      Description = (case UpdateTaskInput.Description input of None \<Rightarrow> Task.Description t | Some v \<Rightarrow> v),
      Status = (case UpdateTaskInput.Status input of None \<Rightarrow> Task.Status t | Some v \<Rightarrow> v),
      DueDate = (case UpdateTaskInput.DueDate input of None \<Rightarrow> Task.DueDate t | Some v \<Rightarrow> v)\<rparr>"

definition update_input_valid :: "time \<Rightarrow> UpdateTaskInput \<Rightarrow> bool" where
  "update_input_valid now input =
     (UpdateTaskInput.Title input \<noteq> Some ''''
      \<and> (case UpdateTaskInput.Status input of None \<Rightarrow> True | Some s \<Rightarrow> isValidStatus s)
      \<and> (case UpdateTaskInput.DueDate input of None \<Rightarrow> True | Some d \<Rightarrow> \<not> IsZero d \<and> After d now))"

subsection \<open>Runs of service calls and the invariant of the store\<close>

text \<open>
  A call of the service, with the value \<^verbatim>\<open>time.Now()\<close> has during it, and a run of
  calls, each on the world the previous one left (whether it failed or not).
\<close>

datatype call =
    CallCreateTask time CreateTaskInput
  | CallUpdateTask time string UpdateTaskInput
  | CallDeleteTask string

fun exec :: "(nat \<Rightarrow> string) \<Rightarrow> call \<Rightarrow> world \<Rightarrow> world" where
  "exec gen (CallCreateTask now input) w = snd (CreateTask gen now input w)"
| "exec gen (CallUpdateTask now ident input) w = snd (UpdateTask now ident input w)"
| "exec gen (CallDeleteTask ident) w = snd (DeleteTask ident w)"

fun run :: "(nat \<Rightarrow> string) \<Rightarrow> call list \<Rightarrow> world \<Rightarrow> world" where
  "run gen [] w = w"
| "run gen (c # cs) w = run gen cs (exec gen c w)"

text \<open>
  The data-model invariant of a stored task, and the invariant of the store: no dangling
  pointer, and every record is valid and carries the identifier it is stored under.
\<close>

definition task_valid :: "Task \<Rightarrow> bool" where
  "task_valid t =
     (Task.ID t \<noteq> '''' \<and> Task.Title t \<noteq> '''' \<and> isValidStatus (Task.Status t)
      \<and> \<not> IsZero (Task.DueDate t))"

definition store_inv :: "world \<Rightarrow> bool" where
  "store_inv w = (ptrs_ok w \<and> (\<forall>k t. stored w k = Some t \<longrightarrow> Task.ID t = k \<and> task_valid t))"

subsection \<open>Sequences of Create calls\<close>

text \<open>
  A caller's loop over task objects: \<^verbatim>\<open>Create\<close> each one and read the identifier it now
  carries.
\<close>

fun Create_all :: "(nat \<Rightarrow> string) \<Rightarrow> addr list \<Rightarrow> world \<Rightarrow> (fault + string) list \<times> world" where
  "Create_all gen [] w = ([], w)"
| "Create_all gen (task # rest) w =
     (let (r, w1) = Create gen task w;
          assigned = (case r of
                        Inl e \<Rightarrow> Inl e
                      | Inr _ \<Rightarrow> (case load task w1 of None \<Rightarrow> Inl Panic | Some t \<Rightarrow> Inr (Task.ID t)));
          (rs, w2) = Create_all gen rest w1
      in (assigned # rs, w2))"

subsection \<open>Sorting\<close>

text \<open>
  The documented contract of \<^verbatim>\<open>sort.Slice\<close>, for the closure \<^verbatim>\<open>ListTasks\<close> passes: the
  slice is left as a rearrangement of its elements in which no element is ``less'' than an
  earlier one. The documentation adds that the sort is not guaranteed to be stable.
\<close>

definition sort_Slice_spec :: "((Task \<Rightarrow> Task \<Rightarrow> bool) \<Rightarrow> Task list \<Rightarrow> Task list) \<Rightarrow> bool" where
  "sort_Slice_spec srt =
     (\<forall>ts. mset (srt byDueDate ts) = mset ts
           \<and> sorted_wrt (\<lambda>a b. \<not> byDueDate b a) (srt byDueDate ts))"

text \<open>A sorting function that meets the contract: a stable insertion sort.\<close>

fun insert_by :: "('a \<Rightarrow> 'a \<Rightarrow> bool) \<Rightarrow> 'a \<Rightarrow> 'a list \<Rightarrow> 'a list" where
  "insert_by lt x [] = [x]"
| "insert_by lt x (y # ys) = (if lt y x then y # insert_by lt x ys else x # y # ys)"

fun stable_sort_by :: "('a \<Rightarrow> 'a \<Rightarrow> bool) \<Rightarrow> 'a list \<Rightarrow> 'a list" where
  "stable_sort_by lt [] = []"
| "stable_sort_by lt (x # xs) = insert_by lt x (stable_sort_by lt xs)"

text \<open>Stability of a rearrangement: tasks with the same due date keep their relative order.\<close>

definition stable_on_due_date :: "Task list \<Rightarrow> Task list \<Rightarrow> bool" where
  "stable_on_due_date before after =
     (\<forall>d. filter (\<lambda>t. Task.DueDate t = d) after = filter (\<lambda>t. Task.DueDate t = d) before)"

subsection \<open>Concrete inputs\<close>

text \<open>
  An identifier generator with pairwise distinct, non-empty values; a task as a caller
  builds it before \<^verbatim>\<open>Create\<close>; a world holding that one object and an empty repository;
  the world after it was created; and a world with two objects, one carrying an identifier
  of the caller's choosing.
\<close>

definition demo_uuid :: "nat \<Rightarrow> string" where
  "demo_uuid n = ''task-'' @ replicate n (CHR ''i'')"

definition demo_task :: Task where
  "demo_task = \<lparr>ID = '''', Title = ''Original'', Description = '''', Status = ''PENDING'', DueDate = 86400\<rparr>"

definition demo_world :: world where
  "demo_world = \<lparr>heap = [demo_task], tasks = Map.empty, uuid_calls = 0\<rparr>"

definition demo_store :: world where
  "demo_store = \<lparr>heap = [demo_task\<lparr>ID := ''task-''\<rparr>], tasks = [''task-'' \<mapsto> 0], uuid_calls = 1\<rparr>"

definition demo_world2 :: world where
  "demo_world2 =
     \<lparr>heap = [demo_task, demo_task\<lparr>ID := ''chosen-by-caller''\<rparr>], tasks = Map.empty, uuid_calls = 0\<rparr>"

text \<open>
  Thirteen tasks under the identifiers \<open>demo_uuid 0\<close>, ..., \<open>demo_uuid 12\<close>: the first
  twelve are due at 172800, the last one at 86400.
\<close>

definition demo13_task :: "nat \<Rightarrow> Task" where
  "demo13_task n =
     \<lparr>ID = demo_uuid n, Title = ''Task'', Description = '''', Status = ''PENDING'',
      DueDate = (if n = 12 then 86400 else 172800)\<rparr>"

definition demo13 :: world where
  "demo13 =
     \<lparr>heap = map demo13_task [0 ..< 13],
      tasks = map_of (map (\<lambda>n. (demo_uuid n, n)) [0 ..< 13]),
      uuid_calls = 13\<rparr>"

section \<open>Basic facts\<close>

subsection \<open>Errors\<close>

lemma NewValidationError_kind:
  "IsValidation (NewValidationError m) \<and> \<not> IsNotFound (NewValidationError m) \<and> Message (NewValidationError m) = m"
  by (simp add: IsValidation_def IsNotFound_def NewValidationError_def ErrTypeValidation_def ErrTypeNotFound_def)

lemma NewNotFoundError_kind:
  "IsNotFound (NewNotFoundError m) \<and> \<not> IsValidation (NewNotFoundError m) \<and> Message (NewNotFoundError m) = m"
  by (simp add: IsValidation_def IsNotFound_def NewNotFoundError_def ErrTypeValidation_def ErrTypeNotFound_def)

subsection \<open>Memory\<close>

lemma load_alloc_new: "alloc t w = (q, w1) \<Longrightarrow> load q w1 = Some t"
  by (auto simp: alloc_def load_def)

lemma load_alloc_old: "alloc t w = (q, w1) \<Longrightarrow> p < length (heap w) \<Longrightarrow> load p w1 = load p w"
  by (auto simp: alloc_def load_def nth_append)

lemma ptrs_okD: "ptrs_ok w \<Longrightarrow> tasks w k = Some p \<Longrightarrow> p < length (heap w)"
  by (simp add: ptrs_ok_def)

lemma stored_eqI:
  assumes "ptrs_ok w" and "tasks w' = tasks w"
    and "\<And>p. p < length (heap w) \<Longrightarrow> load p w' = load p w"
  shows "stored w' = stored w"
proof
  fix k
  show "stored w' k = stored w k"
  proof (cases "tasks w k")
    case None
    with assms(2) show ?thesis by (simp add: stored_def)
  next
    case (Some p)
    with assms(1) have "p < length (heap w)" by (simp add: ptrs_okD)
    with Some assms(2,3) show ?thesis by (simp add: stored_def)
  qed
qed

lemma load_assign_other: "p \<noteq> q \<Longrightarrow> load p (assign q f w) = load p w"
  by (simp add: load_def assign_def)

lemma load_assign_same: "load q w = Some t \<Longrightarrow> load q (assign q f w) = Some (f t)"
  by (auto simp: load_def assign_def split: if_splits)

lemma assign_fields [simp]:
  "tasks (assign q f w) = tasks w" "uuid_calls (assign q f w) = uuid_calls w"
  "length (heap (assign q f w)) = length (heap w)"
  by (simp_all add: assign_def)

lemma alloc_fields:
  "alloc t w = (q, w1) \<Longrightarrow>
     q = length (heap w) \<and> length (heap w1) = Suc (length (heap w)) \<and> tasks w1 = tasks w
     \<and> uuid_calls w1 = uuid_calls w"
  by (auto simp: alloc_def)

lemma ptrs_ok_alloc: "ptrs_ok w \<Longrightarrow> alloc t w = (q, w1) \<Longrightarrow> ptrs_ok w1"
  by (auto simp: ptrs_ok_def alloc_def less_Suc_eq)

lemma ptrs_ok_assign: "ptrs_ok w \<Longrightarrow> ptrs_ok (assign q f w)"
  by (simp add: ptrs_ok_def)

lemma GetByID_value_stored:
  "ptrs_ok w \<Longrightarrow> GetByID_value ident w = stored w ident"
  by (auto simp: GetByID_value_def GetByID_def stored_def load_def alloc_def
      split: option.splits dest: ptrs_okD)

lemma GetByID_Inr:
  "GetByID ident w = (Inr copy, w1) \<Longrightarrow>
     \<exists>p t. tasks w ident = Some p \<and> load p w = Some t \<and> alloc t w = (copy, w1)"
  by (auto simp: GetByID_def split: option.splits prod.splits)

subsection \<open>The blocks of UpdateTask\<close>

lemma frame_except_refl: "frame_except q w w"
  by (simp add: frame_except_def)

lemma frame_except_trans: "frame_except q w w1 \<Longrightarrow> frame_except q w1 w2 \<Longrightarrow> frame_except q w w2"
  by (simp add: frame_except_def)

lemma frame_except_assign: "frame_except q w (assign q f w)"
  by (simp add: frame_except_def load_assign_other)

lemma assign_id: "assign q (\<lambda>t. t) w = w"
  by (simp add: assign_def)

lemma assign_assign: "assign q f (assign q g w) = assign q (\<lambda>t. f (g t)) w"
  by (cases "q < length (heap w)") (simp_all add: assign_def list_update_beyond)

lemma update_title_cases:
  "update_title input task w = (r, w') \<Longrightarrow>
     (UpdateTaskInput.Title input = Some '''' \<and> r = Inl (Err (NewValidationError ErrTitleRequired)) \<and> w' = w)
   \<or> (UpdateTaskInput.Title input \<noteq> Some '''' \<and> r = Inr ()
       \<and> w' = assign task (\<lambda>t. t\<lparr>Task.Title := (case UpdateTaskInput.Title input of None \<Rightarrow> Task.Title t | Some v \<Rightarrow> v)\<rparr>) w)"
  by (auto simp: update_title_def assign_id split: option.splits if_splits)

lemma update_description_cases:
  "update_description input task w = (r, w') \<Longrightarrow>
     r = Inr ()
     \<and> w' = assign task (\<lambda>t. t\<lparr>Task.Description := (case UpdateTaskInput.Description input of None \<Rightarrow> Task.Description t | Some v \<Rightarrow> v)\<rparr>) w"
  by (auto simp: update_description_def assign_id split: option.splits if_splits)

lemma update_status_cases:
  "update_status input task w = (r, w') \<Longrightarrow>
     ((\<exists>s. UpdateTaskInput.Status input = Some s \<and> \<not> isValidStatus s)
        \<and> r = Inl (Err (NewValidationError ErrStatusInvalid)) \<and> w' = w)
   \<or> ((case UpdateTaskInput.Status input of None \<Rightarrow> True | Some s \<Rightarrow> isValidStatus s) \<and> r = Inr ()
       \<and> w' = assign task (\<lambda>t. t\<lparr>Task.Status := (case UpdateTaskInput.Status input of None \<Rightarrow> Task.Status t | Some v \<Rightarrow> v)\<rparr>) w)"
  by (auto simp: update_status_def assign_id split: option.splits if_splits)

lemma update_due_date_cases:
  "update_due_date now input task w = (r, w') \<Longrightarrow>
     ((\<exists>d. UpdateTaskInput.DueDate input = Some d \<and> \<not> (\<not> IsZero d \<and> After d now))
        \<and> (\<exists>m. r = Inl (Err (NewValidationError m))) \<and> w' = w)
   \<or> ((case UpdateTaskInput.DueDate input of None \<Rightarrow> True | Some d \<Rightarrow> \<not> IsZero d \<and> After d now) \<and> r = Inr ()
       \<and> w' = assign task (\<lambda>t. t\<lparr>Task.DueDate := (case UpdateTaskInput.DueDate input of None \<Rightarrow> Task.DueDate t | Some v \<Rightarrow> v)\<rparr>) w)"
  by (auto simp: update_due_date_def assign_id split: option.splits if_splits)

lemma update_title_frame: "update_title input task w = (r, w') \<Longrightarrow> frame_except task w w'"
  by (auto dest!: update_title_cases simp: frame_except_refl frame_except_assign)

lemma update_description_frame: "update_description input task w = (r, w') \<Longrightarrow> frame_except task w w'"
  by (auto dest!: update_description_cases simp: frame_except_refl frame_except_assign)

lemma update_status_frame: "update_status input task w = (r, w') \<Longrightarrow> frame_except task w w'"
  by (auto dest!: update_status_cases simp: frame_except_refl frame_except_assign)

lemma update_due_date_frame: "update_due_date now input task w = (r, w') \<Longrightarrow> frame_except task w w'"
  by (auto dest!: update_due_date_cases simp: frame_except_refl frame_except_assign)

lemma Update_Inl: "Update task w = (Inl e, w') \<Longrightarrow> w' = w"
  by (auto simp: Update_def split: option.splits prod.splits)

lemma GetByID_Inl: "GetByID ident w = (Inl e, w') \<Longrightarrow> w' = w"
  by (auto simp: GetByID_def split: option.splits prod.splits)

lemma stored_frame_fresh:
  assumes "ptrs_ok w" and "alloc t w = (q, w1)" and "frame_except q w1 w'"
  shows "stored w' = stored w"
proof (rule stored_eqI [OF assms(1)])
  from assms(2,3) show "tasks w' = tasks w"
    by (simp add: frame_except_def alloc_fields)
next
  fix p assume p: "p < length (heap w)"
  with assms(2) have "p \<noteq> q" by (auto dest: alloc_fields)
  with assms(3) have "load p w' = load p w1" by (simp add: frame_except_def)
  with assms(2) p show "load p w' = load p w" by (simp add: load_alloc_old)
qed

lemma UpdateTask_unfold:
  assumes "UpdateTask now ident input w = (r, w')"
  shows "(\<exists>e. r = Inl e \<and> GetByID ident w = (Inl e, w'))
     \<or> (\<exists>task w1 w5. GetByID ident w = (Inr task, w1) \<and> frame_except task w1 w5
          \<and> ((\<exists>e. r = Inl e \<and> w' = w5 \<and> \<not> update_input_valid now input)
             \<or> (update_input_valid now input
                 \<and> w5 = assign task (\<lambda>t. merge_spec t input) w1
                 \<and> ((\<exists>e. r = Inl e \<and> Update task w5 = (Inl e, w'))
                      \<or> (r = Inr task \<and> Update task w5 = (Inr (), w'))))))"
proof (cases "GetByID ident w")
  case (Pair g w1)
  show ?thesis
  proof (cases g)
    case (Inl e)
    with Pair assms have "r = Inl e \<and> w' = w1" by (simp add: UpdateTask_def)
    with Pair Inl show ?thesis by simp
  next
    case (Inr task)
    obtain r2 w2 where s2: "update_title input task w1 = (r2, w2)" by fastforce
    obtain r3 w3 where s3: "update_description input task w2 = (r3, w3)" by fastforce
    obtain r4 w4 where s4: "update_status input task w3 = (r4, w4)" by fastforce
    obtain r5 w5 where s5: "update_due_date now input task w4 = (r5, w5)" by fastforce
    obtain r6 w6 where s6: "Update task w5 = (r6, w6)" by fastforce
    note fr2 = update_title_frame [OF s2]
    note fr3 = frame_except_trans [OF fr2 update_description_frame [OF s3]]
    note fr4 = frame_except_trans [OF fr3 update_status_frame [OF s4]]
    note fr5 = frame_except_trans [OF fr4 update_due_date_frame [OF s5]]
    have G: "GetByID ident w = (Inr task, w1)" using Pair Inr by simp
    show ?thesis
    proof (cases r2)
      case (Inl e)
      with assms G s2 have "r = Inl e \<and> w' = w2" by (simp add: UpdateTask_def)
      moreover from update_title_cases [OF s2] Inl have "\<not> update_input_valid now input"
        by (auto simp: update_input_valid_def)
      ultimately show ?thesis using G fr2 by blast
    next
      case r2: (Inr u2)
      from update_description_cases [OF s3] have r3: "r3 = Inr ()" by simp
      show ?thesis
      proof (cases r4)
        case (Inl e)
        with assms G s2 s3 s4 r2 r3 have "r = Inl e \<and> w' = w4" by (simp add: UpdateTask_def)
        moreover from update_status_cases [OF s4] Inl have "\<not> update_input_valid now input"
          by (auto simp: update_input_valid_def)
        ultimately show ?thesis using G fr4 by blast
      next
        case r4: (Inr u4)
        show ?thesis
        proof (cases r5)
          case (Inl e)
          with assms G s2 s3 s4 s5 r2 r3 r4 have "r = Inl e \<and> w' = w5"
            by (simp add: UpdateTask_def)
          moreover from update_due_date_cases [OF s5] Inl have "\<not> update_input_valid now input"
            by (auto simp: update_input_valid_def)
          ultimately show ?thesis using G fr5 by blast
        next
          case r5: (Inr u5)
          from assms G s2 s3 s4 s5 s6 r2 r3 r4 r5
          have res: "(\<exists>e. r = Inl e \<and> Update task w5 = (Inl e, w'))
                      \<or> (r = Inr task \<and> Update task w5 = (Inr (), w'))"
            by (cases r6) (simp_all add: UpdateTask_def)
          from update_title_cases [OF s2] r2 have
            a2: "UpdateTaskInput.Title input \<noteq> Some ''''"
              "w2 = assign task (\<lambda>t. t\<lparr>Task.Title := (case UpdateTaskInput.Title input of None \<Rightarrow> Task.Title t | Some v \<Rightarrow> v)\<rparr>) w1"
            by auto
          from update_description_cases [OF s3] have
            a3: "w3 = assign task (\<lambda>t. t\<lparr>Task.Description := (case UpdateTaskInput.Description input of None \<Rightarrow> Task.Description t | Some v \<Rightarrow> v)\<rparr>) w2"
            by auto
          from update_status_cases [OF s4] r4 have
            a4: "(case UpdateTaskInput.Status input of None \<Rightarrow> True | Some s \<Rightarrow> isValidStatus s)"
              "w4 = assign task (\<lambda>t. t\<lparr>Task.Status := (case UpdateTaskInput.Status input of None \<Rightarrow> Task.Status t | Some v \<Rightarrow> v)\<rparr>) w3"
            by auto
          from update_due_date_cases [OF s5] r5 have
            a5: "(case UpdateTaskInput.DueDate input of None \<Rightarrow> True | Some d \<Rightarrow> \<not> IsZero d \<and> After d now)"
              "w5 = assign task (\<lambda>t. t\<lparr>Task.DueDate := (case UpdateTaskInput.DueDate input of None \<Rightarrow> Task.DueDate t | Some v \<Rightarrow> v)\<rparr>) w4"
            by auto
          have valid: "update_input_valid now input"
            using a2(1) a4(1) a5(1) by (simp add: update_input_valid_def)
          have "w5 = assign task (\<lambda>t. merge_spec t input) w1"
            unfolding a5(2) a4(2) a3 a2(2) assign_assign
            by (rule arg_cong [where f = "\<lambda>f. assign task f w1"], rule ext)
               (simp add: merge_spec_def split: option.splits)
          with G fr5 valid res show ?thesis by blast
        qed
      qed
    qed
  qed
qed

subsection \<open>Update and UpdateTask\<close>

lemma Update_success:
  assumes "load task w = Some t" and "tasks w (Task.ID t) = Some p"
  shows "Update task w =
           (Inr (), w\<lparr>heap := heap w @ [t], tasks := (tasks w)(Task.ID t \<mapsto> length (heap w))\<rparr>)"
  using assms by (simp add: Update_def alloc_def)

lemma Update_Inr:
  assumes "Update task w = (Inr u, w')"
  shows "\<exists>t p. load task w = Some t \<and> tasks w (Task.ID t) = Some p
           \<and> w' = w\<lparr>heap := heap w @ [t], tasks := (tasks w)(Task.ID t \<mapsto> length (heap w))\<rparr>"
  using assms by (auto simp: Update_def alloc_def split: option.splits)

lemma stored_after_Update:
  assumes "ptrs_ok w"
  shows "stored (w\<lparr>heap := heap w @ [t], tasks := (tasks w)(k \<mapsto> length (heap w))\<rparr>)
           = (stored w)(k \<mapsto> t)"
proof
  fix j
  show "stored (w\<lparr>heap := heap w @ [t], tasks := (tasks w)(k \<mapsto> length (heap w))\<rparr>) j
          = ((stored w)(k \<mapsto> t)) j"
  proof (cases "j = k")
    case True
    then show ?thesis by (simp add: stored_def load_def)
  next
    case False
    show ?thesis
    proof (cases "tasks w j")
      case None
      with False show ?thesis by (simp add: stored_def)
    next
      case (Some p)
      with assms have "p < length (heap w)" by (simp add: ptrs_okD)
      with False Some show ?thesis by (simp add: stored_def load_def nth_append)
    qed
  qed
qed

lemma ptrs_ok_after_Update:
  "ptrs_ok w \<Longrightarrow> ptrs_ok (w\<lparr>heap := heap w @ [t], tasks := (tasks w)(k \<mapsto> length (heap w))\<rparr>)"
  by (auto simp: ptrs_ok_def less_Suc_eq)

lemma ptrs_ok_frame: "ptrs_ok w \<Longrightarrow> frame_except q w w' \<Longrightarrow> ptrs_ok w'"
  by (simp add: ptrs_ok_def frame_except_def)

lemma UpdateTask_error:
  assumes ok: "ptrs_ok w" and run: "UpdateTask now ident input w = (Inl e, w')"
  shows "stored w' = stored w \<and> tasks w' = tasks w \<and> uuid_calls w' = uuid_calls w \<and> ptrs_ok w'"
proof -
  from UpdateTask_unfold [OF run] consider
    (absent) "GetByID ident w = (Inl e, w')"
  | (local) task w1 where "GetByID ident w = (Inr task, w1)" "frame_except task w1 w'"
    by (auto dest: Update_Inl)
  then show ?thesis
  proof cases
    case absent
    then have "w' = w" by (rule GetByID_Inl)
    with ok show ?thesis by simp
  next
    case local
    from GetByID_Inr [OF local(1)] obtain p t where a: "alloc t w = (task, w1)" by blast
    from stored_frame_fresh [OF ok a local(2)] have "stored w' = stored w" .
    moreover from a local(2) have "tasks w' = tasks w \<and> uuid_calls w' = uuid_calls w"
      by (auto simp: frame_except_def dest: alloc_fields)
    moreover from ptrs_ok_frame [OF ptrs_ok_alloc [OF ok a] local(2)] have "ptrs_ok w'" .
    ultimately show ?thesis by simp
  qed
qed

lemma UpdateTask_success:
  assumes ok: "ptrs_ok w" and run: "UpdateTask now ident input w = (Inr task, w')"
  shows "\<exists>t. stored w ident = Some t \<and> update_input_valid now input
           \<and> load task w' = Some (merge_spec t input)
           \<and> stored w' = (stored w)(Task.ID t \<mapsto> merge_spec t input)
           \<and> uuid_calls w' = uuid_calls w \<and> ptrs_ok w'"
proof -
  from UpdateTask_unfold [OF run] obtain w1 w5 where
    g: "GetByID ident w = (Inr task, w1)" and fr: "frame_except task w1 w5"
    and valid: "update_input_valid now input"
    and w5: "w5 = assign task (\<lambda>t. merge_spec t input) w1"
    and u: "Update task w5 = (Inr (), w')"
    by auto
  from GetByID_Inr [OF g] obtain p t where
    p: "tasks w ident = Some p" "load p w = Some t" and a: "alloc t w = (task, w1)" by blast
  have st: "stored w ident = Some t" using p by (simp add: stored_def)
  have l1: "load task w1 = Some t" using a by (rule load_alloc_new)
  have l5: "load task w5 = Some (merge_spec t input)"
    unfolding w5 using l1 by (rule load_assign_same)
  have ok5: "ptrs_ok w5" using ptrs_ok_frame [OF ptrs_ok_alloc [OF ok a] fr] .
  have s5: "stored w5 = stored w" using stored_frame_fresh [OF ok a fr] .
  from Update_Inr [OF u] l5 have
    w': "w' = w5\<lparr>heap := heap w5 @ [merge_spec t input],
                 tasks := (tasks w5)(Task.ID (merge_spec t input) \<mapsto> length (heap w5))\<rparr>"
    by auto
  have idm: "Task.ID (merge_spec t input) = Task.ID t" by (simp add: merge_spec_def)
  have task_lt: "task < length (heap w5)" using l5 by (simp add: load_def split: if_splits)
  have "load task w' = Some (merge_spec t input)"
    using l5 task_lt unfolding w' by (simp add: load_def nth_append)
  moreover have "stored w' = (stored w)(Task.ID t \<mapsto> merge_spec t input)"
    unfolding w' using stored_after_Update [OF ok5] s5 idm by simp
  moreover have "ptrs_ok w'" unfolding w' using ok5 by (rule ptrs_ok_after_Update)
  moreover have "uuid_calls w' = uuid_calls w"
    unfolding w' using fr a by (auto simp: frame_except_def dest: alloc_fields)
  ultimately show ?thesis using st valid by blast
qed

lemma UpdateTask_valid_succeeds:
  assumes ok: "ptrs_ok w" and st: "stored w ident = Some t" and key: "Task.ID t = ident"
    and valid: "update_input_valid now input"
  shows "\<exists>task w'. UpdateTask now ident input w = (Inr task, w')"
proof -
  obtain r w' where run: "UpdateTask now ident input w = (r, w')" by fastforce
  from st obtain p where p: "tasks w ident = Some p" "load p w = Some t"
    by (auto simp: stored_def split: option.splits)
  then have g: "GetByID ident w = (Inr (length (heap w)), w\<lparr>heap := heap w @ [t]\<rparr>)"
    by (simp add: GetByID_def alloc_def)
  let ?q = "length (heap w)"
  let ?w5 = "assign ?q (\<lambda>t. merge_spec t input) (w\<lparr>heap := heap w @ [t]\<rparr>)"
  have l5: "load ?q ?w5 = Some (merge_spec t input)"
    by (rule load_assign_same) (simp add: load_def)
  have "tasks ?w5 (Task.ID (merge_spec t input)) = Some p"
    using p key by (simp add: merge_spec_def)
  from Update_success [OF l5 this] have u: "\<exists>w6. Update ?q ?w5 = (Inr (), w6)" by simp
  from UpdateTask_unfold [OF run] g valid u show ?thesis
    using run by auto
qed

lemma UpdateTask_rejects:
  assumes ok: "ptrs_ok w" and e: "fst (UpdateTask now ident input w) = Inl e"
  shows "\<exists>w'. UpdateTask now ident input w = (Inl e, w')
           \<and> (\<forall>k. GetByID_value k w' = GetByID_value k w)"
proof -
  from e obtain w' where run: "UpdateTask now ident input w = (Inl e, w')"
    by (cases "UpdateTask now ident input w") simp
  from UpdateTask_error [OF ok run] have "stored w' = stored w" and "ptrs_ok w'" by simp_all
  with ok have "GetByID_value k w' = GetByID_value k w" for k
    by (simp add: GetByID_value_stored)
  with run show ?thesis by blast
qed

lemma GetByID_stored:
  assumes "stored w ident = Some t"
  shows "GetByID ident w = (Inr (length (heap w)), w\<lparr>heap := heap w @ [t]\<rparr>)"
proof -
  from assms obtain p where "tasks w ident = Some p" "load p w = Some t"
    by (auto simp: stored_def split: option.splits)
  then show ?thesis by (simp add: GetByID_def alloc_def)
qed

lemma UpdateTask_title_empty:
  assumes "stored w ident = Some t" and "UpdateTaskInput.Title input = Some ''''"
  shows "fst (UpdateTask now ident input w) = Inl (Err (NewValidationError ''title is required''))"
  using assms(2)
  by (simp add: UpdateTask_def GetByID_stored [OF assms(1)] update_title_def ErrTitleRequired_def)

lemma UpdateTask_status_invalid:
  assumes "stored w ident = Some t" and "UpdateTaskInput.Title input \<noteq> Some ''''"
    and "UpdateTaskInput.Status input = Some s"
    and "s \<noteq> ''PENDING''" and "s \<noteq> ''IN_PROGRESS''" and "s \<noteq> ''DONE''"
  shows "fst (UpdateTask now ident input w) = Inl (Err (NewValidationError ''invalid status''))"
  using assms(2-)
  by (simp add: UpdateTask_def GetByID_stored [OF assms(1)] update_title_def
      update_description_def update_status_def ErrStatusInvalid_def isValidStatus_def
      StatusPending_def StatusInProgress_def StatusDone_def split: option.splits)

lemma UpdateTask_due_date_invalid:
  assumes "stored w ident = Some t" and "UpdateTaskInput.Title input \<noteq> Some ''''"
    and "\<not> (\<exists>s. UpdateTaskInput.Status input = Some s
               \<and> s \<noteq> ''PENDING'' \<and> s \<noteq> ''IN_PROGRESS'' \<and> s \<noteq> ''DONE'')"
    and "UpdateTaskInput.DueDate input = Some d"
  shows "IsZero d \<Longrightarrow>
           fst (UpdateTask now ident input w) = Inl (Err (NewValidationError ''due_date is required''))"
    and "\<not> IsZero d \<Longrightarrow> \<not> After d now \<Longrightarrow>
           fst (UpdateTask now ident input w)
             = Inl (Err (NewValidationError ''due_date must be in the future''))"
  using assms(2-)
  by (simp_all add: UpdateTask_def GetByID_stored [OF assms(1)] update_title_def
      update_description_def update_status_def update_due_date_def ErrDueDateRequired_def
      ErrDueDatePast_def isValidStatus_def
      StatusPending_def StatusInProgress_def StatusDone_def split: option.splits)

lemma ptrs_ok_demo_store: "ptrs_ok demo_store"
  by (simp add: ptrs_ok_def demo_store_def)

subsection \<open>The invariant of the store\<close>

lemma store_invI:
  "ptrs_ok w \<Longrightarrow> (\<And>k t. stored w k = Some t \<Longrightarrow> Task.ID t = k \<and> task_valid t) \<Longrightarrow> store_inv w"
  by (simp add: store_inv_def)

lemma store_invD:
  "store_inv w \<Longrightarrow> stored w k = Some t \<Longrightarrow> Task.ID t = k \<and> task_valid t"
  by (simp add: store_inv_def)

lemma store_inv_ptrs: "store_inv w \<Longrightarrow> ptrs_ok w"
  by (simp add: store_inv_def)

lemma store_inv_init: "store_inv NewInMemoryTaskRepository"
  by (simp add: store_inv_def ptrs_ok_def stored_def NewInMemoryTaskRepository_def)

lemma stored_uuid_calls [simp]: "stored (w\<lparr>uuid_calls := n\<rparr>) = stored w"
  by (rule ext) (simp add: stored_def load_def split: option.splits)

lemma ptrs_ok_uuid_calls [simp]: "ptrs_ok (w\<lparr>uuid_calls := n\<rparr>) = ptrs_ok w"
  by (simp add: ptrs_ok_def)

lemma CreateTask_result:
  "CreateTask gen now input w = (r, w') \<Longrightarrow>
     (w' = w)
   \<or> (CreateTaskInput.Title input \<noteq> '''' \<and> \<not> IsZero (CreateTaskInput.DueDate input)
      \<and> isValidStatus (case CreateTaskInput.Status input of None \<Rightarrow> StatusPending | Some s \<Rightarrow> s)
      \<and> w' = (w\<lparr>heap := heap w @
                    [\<lparr>ID = gen (uuid_calls w),
                      Title = CreateTaskInput.Title input,
                      Description = CreateTaskInput.Description input,
                      Status = (case CreateTaskInput.Status input of None \<Rightarrow> StatusPending | Some s \<Rightarrow> s),
                      DueDate = CreateTaskInput.DueDate input\<rparr>],
                  tasks := (tasks w)(gen (uuid_calls w) \<mapsto> length (heap w))\<rparr>)
                 \<lparr>uuid_calls := Suc (uuid_calls w)\<rparr>)"
  by (auto simp: CreateTask_def Create_def alloc_def assign_def Let_def isValidStatus_def
      split: if_splits option.splits)

lemma CreateTask_inv:
  assumes inv: "store_inv w" and ne: "gen (uuid_calls w) \<noteq> ''''"
  shows "store_inv (snd (CreateTask gen now input w))"
proof -
  obtain r w' where run: "CreateTask gen now input w = (r, w')" by fastforce
  let ?i = "gen (uuid_calls w)"
  let ?t = "\<lparr>ID = ?i,
             Title = CreateTaskInput.Title input,
             Description = CreateTaskInput.Description input,
             Status = (case CreateTaskInput.Status input of None \<Rightarrow> StatusPending | Some s \<Rightarrow> s),
             DueDate = CreateTaskInput.DueDate input\<rparr>"
  from CreateTask_result [OF run] show ?thesis
  proof (elim disjE conjE)
    assume "w' = w"
    with inv run show ?thesis by simp
  next
    assume v: "CreateTaskInput.Title input \<noteq> ''''" "\<not> IsZero (CreateTaskInput.DueDate input)"
        "isValidStatus (case CreateTaskInput.Status input of None \<Rightarrow> StatusPending | Some s \<Rightarrow> s)"
      and w': "w' = (w\<lparr>heap := heap w @ [?t], tasks := (tasks w)(?i \<mapsto> length (heap w))\<rparr>)
                     \<lparr>uuid_calls := Suc (uuid_calls w)\<rparr>"
    have ok: "ptrs_ok w" using inv by (rule store_inv_ptrs)
    have s: "stored w' = (stored w)(?i \<mapsto> ?t)"
      unfolding w' using stored_after_Update [OF ok] by simp
    have "ptrs_ok w'" unfolding w' using ptrs_ok_after_Update [OF ok] by simp
    moreover have "Task.ID u = k \<and> task_valid u" if "stored w' k = Some u" for k u
    proof (cases "k = ?i")
      case True
      with that s have "u = ?t" by simp
      with True v ne show ?thesis by (simp add: task_valid_def)
    next
      case False
      with that s have "stored w k = Some u" by simp
      with inv show ?thesis by (rule store_invD)
    qed
    ultimately have "store_inv w'" by (rule store_invI)
    with run show ?thesis by simp
  qed
qed

lemma merge_spec_valid:
  "task_valid t \<Longrightarrow> update_input_valid now input \<Longrightarrow> task_valid (merge_spec t input)"
  by (auto simp: task_valid_def update_input_valid_def merge_spec_def split: option.splits)

lemma UpdateTask_inv:
  assumes inv: "store_inv w"
  shows "store_inv (snd (UpdateTask now ident input w))"
proof -
  have ok: "ptrs_ok w" using inv by (rule store_inv_ptrs)
  obtain r w' where run: "UpdateTask now ident input w = (r, w')" by fastforce
  show ?thesis
  proof (cases r)
    case (Inl e)
    with UpdateTask_error [OF ok] run have "stored w' = stored w" "ptrs_ok w'" by simp_all
    with inv have "store_inv w'" by (simp add: store_inv_def)
    with run show ?thesis by simp
  next
    case (Inr task)
    with UpdateTask_success [OF ok] run obtain t where
      st: "stored w ident = Some t" and valid: "update_input_valid now input"
      and s: "stored w' = (stored w)(Task.ID t \<mapsto> merge_spec t input)" and ok': "ptrs_ok w'"
      by blast
    from store_invD [OF inv st] have t: "Task.ID t = ident" "task_valid t" by simp_all
    have "Task.ID u = k \<and> task_valid u" if "stored w' k = Some u" for k u
    proof (cases "k = ident")
      case True
      with that s t have "u = merge_spec t input" by simp
      with True t valid show ?thesis by (simp add: merge_spec_valid) (simp add: merge_spec_def)
    next
      case False
      with that s t have "stored w k = Some u" by simp
      with inv show ?thesis by (rule store_invD)
    qed
    with ok' have "store_inv w'" by (rule store_invI)
    with run show ?thesis by simp
  qed
qed

lemma DeleteTask_inv:
  assumes inv: "store_inv w"
  shows "store_inv (snd (DeleteTask ident w))"
proof (cases "tasks w ident")
  case None
  with inv show ?thesis by (simp add: DeleteTask_def Delete_def)
next
  case (Some p)
  let ?w' = "w\<lparr>tasks := (tasks w)(ident := None)\<rparr>"
  have w': "snd (DeleteTask ident w) = ?w'" using Some by (simp add: DeleteTask_def Delete_def)
  have s: "stored ?w' = (stored w)(ident := None)"
    by (rule ext) (simp add: stored_def load_def split: option.splits)
  have "ptrs_ok ?w'" using store_inv_ptrs [OF inv] by (simp add: ptrs_ok_def)
  moreover have "Task.ID u = k \<and> task_valid u" if "stored ?w' k = Some u" for k u
  proof -
    from that s have "stored w k = Some u" by (simp split: if_splits)
    with inv show ?thesis by (rule store_invD)
  qed
  ultimately have "store_inv ?w'" by (rule store_invI)
  with w' show ?thesis by simp
qed

lemma exec_inv: "store_inv w \<Longrightarrow> (\<forall>n. gen n \<noteq> '''') \<Longrightarrow> store_inv (exec gen c w)"
  by (cases c) (simp_all add: CreateTask_inv UpdateTask_inv DeleteTask_inv)

lemma run_inv: "store_inv w \<Longrightarrow> (\<forall>n. gen n \<noteq> '''') \<Longrightarrow> store_inv (run gen cs w)"
  by (induction cs arbitrary: w) (simp_all add: exec_inv)

subsection \<open>Sequences of Create calls\<close>

lemma demo_uuid_nonempty: "demo_uuid n \<noteq> ''''"
  by (simp add: demo_uuid_def)

lemma demo_uuid_inj: "inj demo_uuid"
proof (rule injI)
  fix m n assume "demo_uuid m = demo_uuid n"
  then have "length (demo_uuid m) = length (demo_uuid n)" by simp
  then show "m = n" by (simp add: demo_uuid_def)
qed

lemma Create_ok:
  "task < length (heap w) \<Longrightarrow>
     Create gen task w =
       (Inr (), (assign task (\<lambda>t. t\<lparr>ID := gen (uuid_calls w)\<rparr>) (w\<lparr>uuid_calls := Suc (uuid_calls w)\<rparr>))
                  \<lparr>tasks := (tasks w)(gen (uuid_calls w) \<mapsto> task)\<rparr>)"
  by (simp add: Create_def Let_def)

lemma Create_all_keeps:
  "Create_all gen ps w = (rs, w') \<Longrightarrow> length (heap w') = length (heap w) \<and> dom (tasks w) \<subseteq> dom (tasks w')"
proof (induction ps arbitrary: w rs w')
  case Nil
  then show ?case by simp
next
  case (Cons task rest)
  obtain r w1 where c: "Create gen task w = (r, w1)" by fastforce
  obtain rs2 w2 where a: "Create_all gen rest w1 = (rs2, w2)" by fastforce
  from Cons.prems c a have "w' = w2" by (simp add: Let_def)
  moreover from c have "length (heap w1) = length (heap w) \<and> dom (tasks w) \<subseteq> dom (tasks w1)"
    by (auto simp: Create_def Let_def split: if_splits)
  moreover note Cons.IH [OF a]
  ultimately show ?case by auto
qed

lemma Create_all_ids:
  assumes "\<forall>task \<in> set ps. task < length (heap w)"
    and "Create_all gen ps w = (rs, w')"
  shows "rs = map (\<lambda>n. Inr (gen n)) [uuid_calls w ..< uuid_calls w + length ps]
       \<and> uuid_calls w' = uuid_calls w + length ps
       \<and> gen ` {uuid_calls w ..< uuid_calls w + length ps} \<subseteq> dom (tasks w')"
  using assms
proof (induction ps arbitrary: w rs w')
  case Nil
  then show ?case by simp
next
  case (Cons task rest)
  let ?w1 = "(assign task (\<lambda>t. t\<lparr>ID := gen (uuid_calls w)\<rparr>) (w\<lparr>uuid_calls := Suc (uuid_calls w)\<rparr>))
                  \<lparr>tasks := (tasks w)(gen (uuid_calls w) \<mapsto> task)\<rparr>"
  from Cons.prems(1) have lt: "task < length (heap w)" by simp
  then have c: "Create gen task w = (Inr (), ?w1)" by (rule Create_ok)
  have l: "load task ?w1 = Some ((heap w ! task)\<lparr>ID := gen (uuid_calls w)\<rparr>)"
    using lt by (simp add: load_def assign_def)
  obtain rs2 w2 where a: "Create_all gen rest ?w1 = (rs2, w2)" by fastforce
  from Cons.prems(2) c l a have res: "rs = Inr (gen (uuid_calls w)) # rs2" "w' = w2"
    by (simp_all add: Let_def)
  have "\<forall>task \<in> set rest. task < length (heap ?w1)" using Cons.prems(1) by simp
  from Cons.IH [OF this a] have ih:
    "rs2 = map (\<lambda>n. Inr (gen n)) [Suc (uuid_calls w) ..< Suc (uuid_calls w) + length rest]"
    "uuid_calls w2 = Suc (uuid_calls w) + length rest"
    "gen ` {Suc (uuid_calls w) ..< Suc (uuid_calls w) + length rest} \<subseteq> dom (tasks w2)"
    by simp_all
  from Create_all_keeps [OF a] have "gen (uuid_calls w) \<in> dom (tasks w2)" by auto
  moreover have "{uuid_calls w ..< uuid_calls w + length (task # rest)}
      = insert (uuid_calls w) {Suc (uuid_calls w) ..< Suc (uuid_calls w) + length rest}"
    by auto
  ultimately have "gen ` {uuid_calls w ..< uuid_calls w + length (task # rest)} \<subseteq> dom (tasks w2)"
    using ih(3) by simp
  moreover have "rs = map (\<lambda>n. Inr (gen n)) [uuid_calls w ..< uuid_calls w + length (task # rest)]"
    using res(1) ih(1) by (simp add: upt_conv_Cons del: upt_Suc)
  ultimately show ?case using res(2) ih(2) by simp
qed

subsection \<open>A concrete run of the service\<close>

lemma demo_run_step1: "CreateTask demo_uuid 100 \<lparr>CreateTaskInput.Title = ''Report'', CreateTaskInput.Description = '''',
                              CreateTaskInput.Status = None, CreateTaskInput.DueDate = 200\<rparr> NewInMemoryTaskRepository
   = (Inr 0, \<lparr>heap = [\<lparr>ID = ''task-'', Title = ''Report'', Description = '''', Status = ''PENDING'', DueDate = 200\<rparr>],
      tasks = [''task-'' \<mapsto> 0], uuid_calls = 1\<rparr>)"
  by (simp add: CreateTask_def Create_def alloc_def assign_def NewInMemoryTaskRepository_def demo_uuid_def
        IsZero_def After_def StatusPending_def Let_def)

lemma demo_run_step2: "UpdateTask 100 ''task-'' \<lparr>Title = None, Description = None,
                              Status = Some ''IN_PROGRESS'', DueDate = None\<rparr>
     \<lparr>heap = [\<lparr>ID = ''task-'', Title = ''Report'', Description = '''', Status = ''PENDING'', DueDate = 200\<rparr>],
      tasks = [''task-'' \<mapsto> 0], uuid_calls = 1\<rparr>
   = (Inr 1, \<lparr>heap = [\<lparr>ID = ''task-'', Title = ''Report'', Description = '''', Status = ''PENDING'', DueDate = 200\<rparr>,
        \<lparr>ID = ''task-'', Title = ''Report'', Description = '''', Status = ''IN_PROGRESS'', DueDate = 200\<rparr>,
        \<lparr>ID = ''task-'', Title = ''Report'', Description = '''', Status = ''IN_PROGRESS'', DueDate = 200\<rparr>],
      tasks = [''task-'' \<mapsto> Suc (Suc 0)], uuid_calls = 1\<rparr>)"
  by (simp add: UpdateTask_def GetByID_def Update_def update_title_def update_description_def
      update_status_def update_due_date_def alloc_def assign_def load_def isValidStatus_def
      StatusPending_def StatusInProgress_def StatusDone_def)

subsection \<open>Sorting\<close>

lemma mset_insert_by: "mset (insert_by lt x ys) = add_mset x (mset ys)"
  by (induction ys) simp_all

lemma mset_stable_sort_by: "mset (stable_sort_by lt xs) = mset xs"
  by (induction xs) (simp_all add: mset_insert_by)

lemma set_insert_by: "set (insert_by lt x ys) = insert x (set ys)"
  using mset_insert_by [of lt x ys, THEN arg_cong, of set_mset] by simp

lemma not_byDueDate: "(\<not> byDueDate b a) = (Task.DueDate a \<le> Task.DueDate b)"
  by (auto simp: byDueDate_def Before_def)

lemma sorted_insert_by:
  "sorted_wrt (\<lambda>a b. Task.DueDate a \<le> Task.DueDate b) ys \<Longrightarrow>
   sorted_wrt (\<lambda>a b. Task.DueDate a \<le> Task.DueDate b) (insert_by byDueDate x ys)"
proof (induction ys)
  case Nil
  then show ?case by simp
next
  case (Cons y ys)
  show ?case
  proof (cases "byDueDate y x")
    case True
    with Cons show ?thesis
      by (auto simp: set_insert_by byDueDate_def Before_def)
  next
    case False
    with Cons.prems show ?thesis
      by (auto simp: byDueDate_def Before_def)
  qed
qed

lemma sorted_stable_sort_by:
  "sorted_wrt (\<lambda>a b. Task.DueDate a \<le> Task.DueDate b) (stable_sort_by byDueDate xs)"
  by (induction xs) (simp_all add: sorted_insert_by)

lemma stable_sort_by_spec: "sort_Slice_spec stable_sort_by"
  by (simp add: sort_Slice_spec_def mset_stable_sort_by not_byDueDate sorted_stable_sort_by)

lemma sort_Slice_specD:
  "sort_Slice_spec srt \<Longrightarrow>
     mset (srt byDueDate ts) = mset ts
     \<and> sorted_wrt (\<lambda>a b. Task.DueDate a \<le> Task.DueDate b) (srt byDueDate ts)"
  by (simp add: sort_Slice_spec_def not_byDueDate)

subsection \<open>Pagination\<close>

lemma if_Inr_cases:
  "(if c then Inr a else if d then Inr b else Inl e) = Inr out \<Longrightarrow> out = a \<or> out = b"
  by (auto split: if_splits)

lemma paginate_window:
  assumes "paginate flt ts = Inr out"
  shows "\<exists>i n. out = take n (drop i ts)"
proof -
  have "\<exists>i n. [] = take n (drop i ts)"
    by (intro exI [of _ 0]) simp
  with if_Inr_cases [OF assms [unfolded paginate_def Let_def]] show ?thesis
    by blast
qed

lemma sorted_wrt_take_drop:
  "sorted_wrt P xs \<Longrightarrow> sorted_wrt P (take n (drop i xs))"
  by (simp add: sorted_wrt_drop sorted_wrt_take)

lemma mset_take_drop_subset: "mset (take n (drop i xs)) \<subseteq># mset xs"
proof -
  have "mset (take n (drop i xs)) \<subseteq># mset (drop i xs)"
    by (metis append_take_drop_id mset_subset_eq_add_left union_code)
  also have "\<dots> \<subseteq># mset xs"
    by (metis append_take_drop_id mset_subset_eq_add_right union_code)
  finally show ?thesis .
qed

lemma wrap64_id: "- (2 ^ 63) \<le> x \<Longrightarrow> x < 2 ^ 63 \<Longrightarrow> wrap64 x = x"
  by (simp add: wrap64_def)

lemma window_clamp:
  fixes start sz :: int
  assumes "0 \<le> start" and "1 \<le> sz" and "start < int (length ts)"
  shows "take (nat ((if start + sz > int (length ts) then int (length ts) else start + sz) - start))
           (drop (nat start) ts)
         = take (nat sz) (drop (nat start) ts)"
proof -
  from assms(1) obtain k where k: "start = int k" by (auto dest: zero_le_imp_eq_int)
  from assms(2) have "0 \<le> sz" by simp
  then obtain m where m: "sz = int m" by (auto dest: zero_le_imp_eq_int)
  show ?thesis unfolding k m by (auto simp: nat_diff_distrib' simp flip: of_nat_add)
qed

lemma paginate_in_range:
  fixes page sz :: int
  assumes page: "page = (if Page flt \<le> 0 then 1 else Page flt)"
    and sz: "sz = (if PageSize flt \<le> 0 then 10 else PageSize flt)"
    and bounds: "page < 2 ^ 63" "sz < 2 ^ 63" "(page - 1) * sz < 2 ^ 63"
    and len: "length ts < 2 ^ 62"
  shows "paginate flt ts = Inr (take (nat sz) (drop (nat ((page - 1) * sz)) ts))"
proof -
  have pos: "1 \<le> page" "1 \<le> sz" using page sz by (auto split: if_splits)
  let ?start = "(page - 1) * sz"
  have s0: "0 \<le> ?start" using pos by simp
  have w1: "wrap64 (page - 1) = page - 1" using pos bounds(1) by (intro wrap64_id) simp_all
  have w2: "wrap64 ?start = ?start" using s0 bounds(3) by (intro wrap64_id) simp_all
  show ?thesis
  proof (cases "?start \<ge> int (length ts)")
    case True
    then have "length ts \<le> nat ?start" by simp
    with True show ?thesis
      unfolding paginate_def Let_def page [symmetric] sz [symmetric] w1 w2 by simp
  next
    case False
    have small: "?start + sz < 2 ^ 63"
    proof (cases "page = 1")
      case True
      with bounds(2) show ?thesis by simp
    next
      case False
      with pos have "1 \<le> page - 1" by simp
      then have "1 * sz \<le> (page - 1) * sz" using pos(2) by (intro mult_right_mono) simp_all
      moreover from \<open>\<not> ?start \<ge> int (length ts)\<close> len have "?start < 2 ^ 62" by simp
      ultimately show ?thesis by simp
    qed
    have "(- (2 ^ 63) :: int) \<le> 0" by simp
    also have "0 \<le> ?start + sz" using s0 pos(2) by linarith
    finally have w3: "wrap64 (?start + sz) = ?start + sz"
      using small by (rule wrap64_id)
    let ?end = "if ?start + sz > int (length ts) then int (length ts) else ?start + sz"
    have le: "?start \<le> ?end" using False pos by simp
    have "take (nat (?end - ?start)) (drop (nat ?start) ts) = take (nat sz) (drop (nat ?start) ts)"
      using s0 pos(2) False by (intro window_clamp) simp_all
    with False s0 le show ?thesis
      unfolding paginate_def Let_def page [symmetric] sz [symmetric] w1 w2 w3
      by (simp del: of_nat_less_iff)
  qed
qed

lemma filterByStatus_set:
  "set (filterByStatus flt ts) =
     {t \<in> set ts. \<forall>s. TaskFilter.Status flt = Some s \<longrightarrow> Task.Status t = s}"
  by (auto simp: filterByStatus_def split: option.splits)

lemma mset_filterByStatus:
  "mset (filterByStatus flt ts)
     = {# t \<in># mset ts. \<forall>s. TaskFilter.Status flt = Some s \<longrightarrow> Task.Status t = s #}"
  by (cases "TaskFilter.Status flt") (simp_all add: filterByStatus_def)

lemma ListTasks_in_range:
  fixes page sz :: int
  assumes "sort_Slice_spec srt"
    and "page = (if Page flt \<le> 0 then 1 else Page flt)"
    and "sz = (if PageSize flt \<le> 0 then 10 else PageSize flt)"
    and "page < 2 ^ 63" "sz < 2 ^ 63" "(page - 1) * sz < 2 ^ 63"
    and "length (ListAll ks w) < 2 ^ 62"
  shows "ListTasks srt ks flt w =
           Inr (take (nat sz) (drop (nat ((page - 1) * sz))
                  (srt byDueDate (filterByStatus flt (ListAll ks w)))))"
proof -
  let ?full = "srt byDueDate (filterByStatus flt (ListAll ks w))"
  have "length ?full = length (filterByStatus flt (ListAll ks w))"
    using sort_Slice_specD [OF assms(1)] by (metis size_mset)
  also have "\<dots> \<le> length (ListAll ks w)"
    by (simp add: filterByStatus_def split: option.splits)
  finally have "length ?full < 2 ^ 62" using assms(7) by simp
  from paginate_in_range [OF assms(2,3,4,5,6) this] show ?thesis
    by (simp add: ListTasks_def)
qed

lemma ListTasks_pagination_example:
  assumes "sort_Slice_spec srt" and "length (ListAll ks w) = 25"
  shows "\<exists>p1 p2 p3.
           ListTasks srt ks \<lparr>TaskFilter.Status = None, Page = 1, PageSize = 10\<rparr> w = Inr p1 \<and> length p1 = 10
         \<and> ListTasks srt ks \<lparr>TaskFilter.Status = None, Page = 2, PageSize = 10\<rparr> w = Inr p2 \<and> length p2 = 10
         \<and> ListTasks srt ks \<lparr>TaskFilter.Status = None, Page = 3, PageSize = 10\<rparr> w = Inr p3 \<and> length p3 = 5
         \<and> ListTasks srt ks \<lparr>TaskFilter.Status = None, Page = 100, PageSize = 10\<rparr> w = Inr []"
proof -
  let ?full = "srt byDueDate (ListAll ks w)"
  have len: "length ?full = 25"
    using sort_Slice_specD [OF assms(1), of "ListAll ks w"] assms(2) by (metis size_mset)
  have f: "filterByStatus \<lparr>TaskFilter.Status = None, Page = p, PageSize = 10\<rparr> (ListAll ks w) = ListAll ks w" for p
    by (simp add: filterByStatus_def)
  have l: "length (ListAll ks w) < 2 ^ 62" using assms(2) by simp
  note r = ListTasks_in_range [OF assms(1) _ _ _ _ _ l]
  have "ListTasks srt ks \<lparr>TaskFilter.Status = None, Page = 1, PageSize = 10\<rparr> w = Inr (take 10 (drop 0 ?full))"
    using r [of 1 "\<lparr>TaskFilter.Status = None, Page = 1, PageSize = 10\<rparr>" 10] by (simp add: f)
  moreover have "ListTasks srt ks \<lparr>TaskFilter.Status = None, Page = 2, PageSize = 10\<rparr> w = Inr (take 10 (drop 10 ?full))"
    using r [of 2 "\<lparr>TaskFilter.Status = None, Page = 2, PageSize = 10\<rparr>" 10] by (simp add: f)
  moreover have "ListTasks srt ks \<lparr>TaskFilter.Status = None, Page = 3, PageSize = 10\<rparr> w = Inr (take 10 (drop 20 ?full))"
    using r [of 3 "\<lparr>TaskFilter.Status = None, Page = 3, PageSize = 10\<rparr>" 10] by (simp add: f)
  moreover have "ListTasks srt ks \<lparr>TaskFilter.Status = None, Page = 100, PageSize = 10\<rparr> w = Inr (take 10 (drop 990 ?full))"
    using r [of 100 "\<lparr>TaskFilter.Status = None, Page = 100, PageSize = 10\<rparr>" 10] by (simp add: f)
  ultimately show ?thesis using len by simp
qed

lemma paginate_overflow_panic:
  "paginate \<lparr>TaskFilter.Status = st, Page = 2147483649, PageSize = 4294967296\<rparr> ts = Inl Panic"
  by (simp add: paginate_def wrap64_def Let_def)

subsection \<open>A run of sort.Slice on thirteen tasks\<close>

lemma ListAll_demo13: "ListAll (map demo_uuid [0 ..< 13]) demo13 = map demo13_task [0 ..< 13]"
  by code_simp

lemma insertionSort_inner_unfold:
  "insertionSort_inner lt a j data =
     (if j > a \<and> lt (data ! j) (data ! (j - 1))
      then insertionSort_inner lt a (j - 1) (Swap data j (j - 1))
      else data)"
  by (cases j) simp_all

lemma scan_down_unfold:
  "scan_down Q data i j =
     (if j = 0 then 0 else if i \<le> j \<and> Q (data ! j) then scan_down Q data i (j - 1) else j)"
  by (cases j) simp_all

lemma partialInsertionSort_loop_unfold:
  "partialInsertionSort_loop lt data a b i steps =
     (if steps = 0 then (False, data)
      else
        (let i = advance_sorted lt data b i in
         if i = b then (True, data)
         else if b - a < 50 then (False, data)
         else
           (let data = Swap data i (i - 1);
                data = (if i - a \<ge> 2 then shift_left lt (i - 1) data else data);
                data = (if b - i \<ge> 2 then shift_right lt data b (i + 1) else data)
            in partialInsertionSort_loop lt data a b i (steps - 1))))"
  by (cases steps) (simp_all add: Let_def)

lemma byDueDate_demo13:
  "byDueDate (demo13_task m) (demo13_task n) = (m = 12 \<and> n \<noteq> 12)"
  by (simp add: byDueDate_def Before_def demo13_task_def)

lemma demo13_tasks:
  "map demo13_task [0 ..< 13]
     = [demo13_task 0, demo13_task 1, demo13_task 2, demo13_task 3, demo13_task 4,
        demo13_task 5, demo13_task 6, demo13_task 7, demo13_task 8, demo13_task 9,
        demo13_task 10, demo13_task 11, demo13_task 12]"
  by (simp add: upt_conv_Cons eval_nat_numeral del: upt_Suc)

lemma demo13_choosePivot:
  "choosePivot_func byDueDate
     [demo13_task 0, demo13_task 1, demo13_task 2, demo13_task 3, demo13_task 4,
      demo13_task 5, demo13_task 6, demo13_task 7, demo13_task 8, demo13_task 9,
      demo13_task 10, demo13_task 11, demo13_task 12] 0 13 = (6, increasingHint)"
  by (simp add: choosePivot_func_def median_func_def order2_func_def Let_def byDueDate_demo13)

lemma demo13_partialInsertionSort:
  "partialInsertionSort_func byDueDate
     [demo13_task 0, demo13_task 1, demo13_task 2, demo13_task 3, demo13_task 4,
      demo13_task 5, demo13_task 6, demo13_task 7, demo13_task 8, demo13_task 9,
      demo13_task 10, demo13_task 11, demo13_task 12] 0 13
   = (False,
     [demo13_task 0, demo13_task 1, demo13_task 2, demo13_task 3, demo13_task 4,
      demo13_task 5, demo13_task 6, demo13_task 7, demo13_task 8, demo13_task 9,
      demo13_task 10, demo13_task 11, demo13_task 12])"
  by (simp add: partialInsertionSort_func_def partialInsertionSort_loop_unfold
        advance_sorted.simps byDueDate_demo13 Let_def)

lemma demo13_partition:
  "partition_func byDueDate
     [demo13_task 0, demo13_task 1, demo13_task 2, demo13_task 3, demo13_task 4,
      demo13_task 5, demo13_task 6, demo13_task 7, demo13_task 8, demo13_task 9,
      demo13_task 10, demo13_task 11, demo13_task 12] 0 13 6
   = (1, False,
     [demo13_task 12, demo13_task 6, demo13_task 2, demo13_task 3, demo13_task 4,
      demo13_task 5, demo13_task 0, demo13_task 7, demo13_task 8, demo13_task 9,
      demo13_task 10, demo13_task 11, demo13_task 1])"
  by (simp add: partition_func_def Swap_def scan_up.simps scan_down_unfold
        two_pointer_loop.simps byDueDate_demo13 Let_def)

lemma demo13_insertionSort_left:
  "insertionSort_func byDueDate
     [demo13_task 12, demo13_task 6, demo13_task 2, demo13_task 3, demo13_task 4,
      demo13_task 5, demo13_task 0, demo13_task 7, demo13_task 8, demo13_task 9,
      demo13_task 10, demo13_task 11, demo13_task 1] 0 1
   = [demo13_task 12, demo13_task 6, demo13_task 2, demo13_task 3, demo13_task 4,
      demo13_task 5, demo13_task 0, demo13_task 7, demo13_task 8, demo13_task 9,
      demo13_task 10, demo13_task 11, demo13_task 1]"
  by (simp add: insertionSort_func_def)

lemma demo13_insertionSort_right:
  "insertionSort_func byDueDate
     [demo13_task 12, demo13_task 6, demo13_task 2, demo13_task 3, demo13_task 4,
      demo13_task 5, demo13_task 0, demo13_task 7, demo13_task 8, demo13_task 9,
      demo13_task 10, demo13_task 11, demo13_task 1] 2 13
   = [demo13_task 12, demo13_task 6, demo13_task 2, demo13_task 3, demo13_task 4,
      demo13_task 5, demo13_task 0, demo13_task 7, demo13_task 8, demo13_task 9,
      demo13_task 10, demo13_task 11, demo13_task 1]"
  by (simp add: insertionSort_func_def insertionSort_inner_unfold byDueDate_demo13
        upt_conv_Cons del: upt_Suc)

lemma pdqsort_func_short:
  "b - a \<le> 12 \<Longrightarrow> pdqsort_func lt rnd data a b limit wasBalanced wasPartitioned
     = insertionSort_func lt data a b"
  by (subst pdqsort_func.simps) simp

lemma bits_Len_pos: "0 < n \<Longrightarrow> 0 < bits_Len n"
  by (subst bits_Len.simps) simp

lemma sort_Slice_demo13:
  "sort_Slice rnd byDueDate (map demo13_task [0 ..< 13])
     = map demo13_task [12, 6, 2, 3, 4, 5, 0, 7, 8, 9, 10, 11, 1]"
proof -
  let ?X = "[demo13_task 0, demo13_task 1, demo13_task 2, demo13_task 3, demo13_task 4,
        demo13_task 5, demo13_task 6, demo13_task 7, demo13_task 8, demo13_task 9,
        demo13_task 10, demo13_task 11, demo13_task 12]"
  let ?Y = "[demo13_task 12, demo13_task 6, demo13_task 2, demo13_task 3, demo13_task 4,
      demo13_task 5, demo13_task 0, demo13_task 7, demo13_task 8, demo13_task 9,
      demo13_task 10, demo13_task 11, demo13_task 1]"
  have len: "length ?X = 13" by simp
  have l: "bits_Len 13 \<noteq> 0" using bits_Len_pos [of 13] by simp
  have "pdqsort_func byDueDate rnd ?X 0 13 (bits_Len 13) True True = ?Y"
    by (subst pdqsort_func.simps)
       (simp add: l demo13_choosePivot demo13_partialInsertionSort demo13_partition
          pdqsort_func_short demo13_insertionSort_left demo13_insertionSort_right
          del: One_nat_def)
  then show ?thesis
    by (simp only: sort_Slice_def demo13_tasks len list.map)
qed

section \<open>The claims\<close>

subsection \<open>C1: copy boundaries\<close>

text \<open>
  Claim C1 says that no caller ever holds a live reference to a stored record, in
  particular that mutating the object passed to \<^verbatim>\<open>Create\<close> never changes what a later
  \<^verbatim>\<open>GetByID\<close> returns. \<^verbatim>\<open>Create\<close> stores the caller's pointer itself, so this fails:
  after \<^verbatim>\<open>Create\<close> of a task titled ``Original'', assigning ``Modified'' to the title
  through the caller's pointer changes the value \<^verbatim>\<open>GetByID\<close> returns (the scenario of
  \<^verbatim>\<open>TestRepository_Isolation\<close>, which expects exactly this).
\<close>

theorem Create_alias_counterexample:
  "GetByID_value ''task-'' (snd (Create demo_uuid 0 demo_world))
     = Some (demo_task\<lparr>ID := ''task-''\<rparr>)
   \<and> GetByID_value ''task-''
        (assign 0 (\<lambda>t. t\<lparr>Task.Title := ''Modified''\<rparr>) (snd (Create demo_uuid 0 demo_world)))
     = Some (demo_task\<lparr>ID := ''task-'', Task.Title := ''Modified''\<rparr>)
   \<and> demo_task\<lparr>ID := ''task-'', Task.Title := ''Modified''\<rparr> \<noteq> demo_task\<lparr>ID := ''task-''\<rparr>"
  by (simp add: GetByID_value_def GetByID_def Create_def demo_uuid_def demo_world_def demo_task_def
      assign_def alloc_def load_def Let_def)

text \<open>
  Claim C1, as amended. Reads and updates cross a copy boundary, creation does not.
  Assigning to a copy returned by \<^verbatim>\<open>GetByID\<close> changes no stored record and no value that
  a later \<^verbatim>\<open>GetByID\<close> returns. After a successful \<^verbatim>\<open>Update\<close>, the record under the
  task's identifier is the value the task had at the call, also after the caller assigns to
  the object it passed. After \<^verbatim>\<open>Create\<close>, which always succeeds on an allocated object,
  \<^verbatim>\<open>GetByID\<close> under the new identifier returns the object's value with that identifier,
  and an assignment \<open>f\<close> through the caller's pointer is visible in what \<^verbatim>\<open>GetByID\<close>
  returns next.
\<close>

theorem copy_on_read_and_update:
  assumes ok: "ptrs_ok w"
  shows "(\<forall>copy w1. GetByID ident w = (Inr copy, w1) \<longrightarrow>
            stored (assign copy f w1) = stored w
            \<and> (\<forall>k. GetByID_value k (assign copy f w1) = GetByID_value k w))
       \<and> (\<forall>t w1. load task w = Some t \<and> Update task w = (Inr (), w1) \<longrightarrow>
            GetByID_value (Task.ID t) w1 = Some t
            \<and> GetByID_value (Task.ID t) (assign task f w1) = Some t)
       \<and> (\<forall>t. load task w = Some t \<longrightarrow>
            (\<exists>w1. Create gen task w = (Inr (), w1)
               \<and> GetByID_value (gen (uuid_calls w)) w1 = Some (t\<lparr>ID := gen (uuid_calls w)\<rparr>)
               \<and> GetByID_value (gen (uuid_calls w)) (assign task f w1)
                    = Some (f (t\<lparr>ID := gen (uuid_calls w)\<rparr>))))"
proof (intro conjI allI impI)
  fix copy w1 assume g: "GetByID ident w = (Inr copy, w1)"
  from GetByID_Inr [OF g] obtain p t where a: "alloc t w = (copy, w1)" by blast
  show s: "stored (assign copy f w1) = stored w"
    using stored_frame_fresh [OF ok a frame_except_assign] .
  have "ptrs_ok (assign copy f w1)"
    using ptrs_ok_assign [OF ptrs_ok_alloc [OF ok a]] .
  then show "GetByID_value k (assign copy f w1) = GetByID_value k w" for k
    using s ok by (simp add: GetByID_value_stored)
next
  fix t w1 assume h: "load task w = Some t \<and> Update task w = (Inr (), w1)"
  with Update_Inr [of task w "()" w1] have
    w1: "w1 = w\<lparr>heap := heap w @ [t], tasks := (tasks w)(Task.ID t \<mapsto> length (heap w))\<rparr>"
    by auto
  have ok1: "ptrs_ok w1" unfolding w1 using ok by (rule ptrs_ok_after_Update)
  have lt: "task < length (heap w)" using h by (simp add: load_def split: if_splits)
  show "GetByID_value (Task.ID t) w1 = Some t"
    using ok1 by (simp add: GetByID_value_stored) (simp add: w1 stored_def load_def)
  show "GetByID_value (Task.ID t) (assign task f w1) = Some t"
    using ptrs_ok_assign [OF ok1] lt
    by (simp add: GetByID_value_stored) (simp add: w1 stored_def load_def assign_def nth_append)
next
  fix t assume l: "load task w = Some t"
  then have lt: "task < length (heap w)" and t: "heap w ! task = t"
    by (simp_all add: load_def split: if_splits)
  let ?i = "gen (uuid_calls w)"
  let ?w1 = "(assign task (\<lambda>t. t\<lparr>ID := ?i\<rparr>) (w\<lparr>uuid_calls := Suc (uuid_calls w)\<rparr>))
               \<lparr>tasks := (tasks w)(?i \<mapsto> task)\<rparr>"
  have c: "Create gen task w = (Inr (), ?w1)" using lt by (simp add: Create_def Let_def)
  have "GetByID_value ?i ?w1 = Some (t\<lparr>ID := ?i\<rparr>)"
    using lt t by (simp add: GetByID_value_def GetByID_def load_def assign_def alloc_def nth_append)
  moreover have "GetByID_value ?i (assign task f ?w1) = Some (f (t\<lparr>ID := ?i\<rparr>))"
    using lt t by (simp add: GetByID_value_def GetByID_def load_def assign_def alloc_def nth_append)
  ultimately show "\<exists>w1. Create gen task w = (Inr (), w1)
               \<and> GetByID_value ?i w1 = Some (t\<lparr>ID := ?i\<rparr>)
               \<and> GetByID_value ?i (assign task f w1) = Some (f (t\<lparr>ID := ?i\<rparr>))"
    using c by simp
qed

theorem copy_on_read_and_update_witness:
  "ptrs_ok demo_store
   \<and> (\<exists>copy w1. GetByID ''task-'' demo_store = (Inr copy, w1)
        \<and> stored (assign copy (\<lambda>t. t\<lparr>Task.Title := ''Modified''\<rparr>) w1) = stored demo_store)
   \<and> (\<exists>t w1. load 0 demo_store = Some t \<and> Update 0 demo_store = (Inr (), w1)
        \<and> GetByID_value (Task.ID t) (assign 0 (\<lambda>t. t\<lparr>Task.Title := ''Modified''\<rparr>) w1) = Some t)
   \<and> (\<exists>t w1. load 0 demo_store = Some t \<and> Create demo_uuid 0 demo_store = (Inr (), w1)
        \<and> GetByID_value (demo_uuid 1) (assign 0 (\<lambda>t. t\<lparr>Task.Title := ''Modified''\<rparr>) w1)
             = Some (t\<lparr>ID := demo_uuid 1, Task.Title := ''Modified''\<rparr>))"
proof -
  let ?f = "\<lambda>t. t\<lparr>Task.Title := ''Modified''\<rparr>"
  note th = copy_on_read_and_update [OF ptrs_ok_demo_store, of "''task-''" ?f 0 demo_uuid]
  obtain copy w1 where g: "GetByID ''task-'' demo_store = (Inr copy, w1)"
    by (simp add: GetByID_def demo_store_def load_def alloc_def)
  have l: "load 0 demo_store = Some (demo_task\<lparr>ID := ''task-''\<rparr>)"
    by (simp add: demo_store_def load_def)
  obtain w2 where u: "Update 0 demo_store = (Inr (), w2)"
    by (simp add: Update_def demo_store_def load_def alloc_def demo_task_def)
  have n: "uuid_calls demo_store = 1" by (simp add: demo_store_def)
  from th g have "stored (assign copy ?f w1) = stored demo_store" by blast
  moreover from th l u have
    "GetByID_value (Task.ID (demo_task\<lparr>ID := ''task-''\<rparr>)) (assign 0 ?f w2)
       = Some (demo_task\<lparr>ID := ''task-''\<rparr>)" by blast
  moreover from th l n obtain w3 where "Create demo_uuid 0 demo_store = (Inr (), w3)"
    "GetByID_value (demo_uuid 1) (assign 0 ?f w3)
       = Some (?f (demo_task\<lparr>ID := ''task-'', ID := demo_uuid 1\<rparr>))" by auto
  ultimately show ?thesis using ptrs_ok_demo_store g l u by auto
qed

subsection \<open>C2: ListTasks sorts by due date\<close>

text \<open>
  Claim C2 says that \<^verbatim>\<open>ListTasks\<close> returns the retained tasks sorted ascending by due
  date and that tasks with equal due dates keep the order in which the store yielded them.
  The source sorts with \<^verbatim>\<open>sort.Slice\<close>, not \<^verbatim>\<open>sort.SliceStable\<close>, and names no second
  key, so the second half does not follow. A slice of more than 12 elements is partitioned
  around a pivot that \<^verbatim>\<open>sort.Slice\<close> first swaps to the front. Take thirteen tasks, which
  the store yields in the order 0, 1, ..., 12: the first twelve have the due date 172800, the
  last one the due date 86400. The pivot is task 6; it changes places with task 0, and is
  returned before it, although both have the same due date and the store yielded task 0
  first. The result is the same whatever the library's random generator \<open>rnd\<close> does,
  since this run does not consult it.
\<close>

theorem ListTasks_not_stable_counterexample:
  "\<forall>rnd.
     ListAll (map demo_uuid [0 ..< 13]) demo13 = map demo13_task [0 ..< 13]
   \<and> ListTasks (sort_Slice rnd) (map demo_uuid [0 ..< 13])
        \<lparr>TaskFilter.Status = None, Page = 1, PageSize = 20\<rparr> demo13
       = Inr (map demo13_task [12, 6, 2, 3, 4, 5, 0, 7, 8, 9, 10, 11, 1])
   \<and> Task.DueDate (demo13_task 0) = Task.DueDate (demo13_task 6)
   \<and> \<not> stable_on_due_date (map demo13_task [0 ..< 13])
          (map demo13_task [12, 6, 2, 3, 4, 5, 0, 7, 8, 9, 10, 11, 1])"
proof (intro allI conjI)
  show l: "ListAll (map demo_uuid [0 ..< 13]) demo13 = map demo13_task [0 ..< 13]"
    by (rule ListAll_demo13)
  have p: "paginate \<lparr>TaskFilter.Status = None, Page = 1, PageSize = 20\<rparr> ts = Inr ts"
    if "length ts = 13" for ts
    using paginate_in_range [of 1 "\<lparr>TaskFilter.Status = None, Page = 1, PageSize = 20\<rparr>" 20 ts] that
    by simp
  show "ListTasks (sort_Slice rnd) (map demo_uuid [0 ..< 13])
        \<lparr>TaskFilter.Status = None, Page = 1, PageSize = 20\<rparr> demo13
       = Inr (map demo13_task [12, 6, 2, 3, 4, 5, 0, 7, 8, 9, 10, 11, 1])" for rnd
    by (simp add: ListTasks_def l filterByStatus_def sort_Slice_demo13 p)
  show "Task.DueDate (demo13_task 0) = Task.DueDate (demo13_task 6)"
    by (simp add: demo13_task_def)
  have "filter (\<lambda>t. Task.DueDate t = 172800) (map demo13_task [0 ..< 13])
      \<noteq> filter (\<lambda>t. Task.DueDate t = 172800)
          (map demo13_task [12, 6, 2, 3, 4, 5, 0, 7, 8, 9, 10, 11, 1])"
    unfolding demo13_tasks by (simp add: demo13_task_def demo_uuid_def)
  then show "\<not> stable_on_due_date (map demo13_task [0 ..< 13])
          (map demo13_task [12, 6, 2, 3, 4, 5, 0, 7, 8, 9, 10, 11, 1])"
    unfolding stable_on_due_date_def by metis
qed

text \<open>
  Claim C2, as amended. The documented contract of \<^verbatim>\<open>sort.Slice\<close> is that it leaves
  the slice as a rearrangement of its elements in which no element is ``less'' than an
  earlier one. Whenever \<^verbatim>\<open>sort.Slice\<close> does so on the retained tasks, and the window start
  \<open>(page-1)*pageSize\<close> fits in a 64-bit integer (which leaves out the filters of claim
  C3; page and page size are 64-bit integers themselves, and a store holds fewer than
  \<open>2^62\<close> tasks), \<^verbatim>\<open>ListTasks\<close> returns without an error exactly the requested page:
  the \<open>pageSize\<close> elements from offset \<open>(page-1)*pageSize\<close> on, or as many as there
  are, of the sorted sequence, with page 1 and page size 10 standing in for values that are
  not positive. The sorted sequence holds exactly the tasks the store yielded that have the
  status the filter asks for (all of them when it asks for none), each as often as it was
  yielded, and is ascending by due date. Nothing is promised about the order of tasks with
  equal due dates. The theorem is used below with the library's own \<open>sort_Slice\<close> on the
  thirteen tasks, for the second page of five.
\<close>

theorem ListTasks_sorted_by_due_date:
  fixes page sz :: int
  assumes "mset (srt byDueDate (filterByStatus flt (ListAll ks w)))
             = mset (filterByStatus flt (ListAll ks w))"
    and "sorted_wrt (\<lambda>a b. \<not> byDueDate b a) (srt byDueDate (filterByStatus flt (ListAll ks w)))"
    and "page = (if Page flt \<le> 0 then 1 else Page flt)"
    and "sz = (if PageSize flt \<le> 0 then 10 else PageSize flt)"
    and "page < 2 ^ 63" and "sz < 2 ^ 63" and "(page - 1) * sz < 2 ^ 63"
    and "length (ListAll ks w) < 2 ^ 62"
  shows "ListTasks srt ks flt w
           = Inr (take (nat sz) (drop (nat ((page - 1) * sz))
                   (srt byDueDate (filterByStatus flt (ListAll ks w)))))
         \<and> mset (srt byDueDate (filterByStatus flt (ListAll ks w)))
             = {# t \<in># mset (ListAll ks w). \<forall>s. TaskFilter.Status flt = Some s \<longrightarrow> Task.Status t = s #}
         \<and> sorted_wrt (\<lambda>a b. Task.DueDate a \<le> Task.DueDate b)
               (srt byDueDate (filterByStatus flt (ListAll ks w)))"
proof -
  let ?kept = "filterByStatus flt (ListAll ks w)"
  let ?full = "srt byDueDate ?kept"
  have "length ?full = length ?kept" using assms(1) by (metis size_mset)
  also have "\<dots> \<le> length (ListAll ks w)"
    by (simp add: filterByStatus_def split: option.splits)
  finally have "length ?full < 2 ^ 62" using assms(8) by simp
  from paginate_in_range [OF assms(3,4,5,6,7) this]
  have "ListTasks srt ks flt w = Inr (take (nat sz) (drop (nat ((page - 1) * sz)) ?full))"
    by (simp add: ListTasks_def)
  moreover have "mset ?full
      = {# t \<in># mset (ListAll ks w). \<forall>s. TaskFilter.Status flt = Some s \<longrightarrow> Task.Status t = s #}"
    using assms(1) by (simp add: mset_filterByStatus)
  moreover have "sorted_wrt (\<lambda>a b. Task.DueDate a \<le> Task.DueDate b) ?full"
    using assms(2) by (simp add: not_byDueDate)
  ultimately show ?thesis by simp
qed

theorem ListTasks_sorted_by_due_date_witness:
  "\<forall>rnd.
     mset (sort_Slice rnd byDueDate
            (filterByStatus \<lparr>TaskFilter.Status = Some ''PENDING'', Page = 2, PageSize = 5\<rparr>
               (ListAll (map demo_uuid [0 ..< 13]) demo13)))
       = mset (filterByStatus \<lparr>TaskFilter.Status = Some ''PENDING'', Page = 2, PageSize = 5\<rparr>
               (ListAll (map demo_uuid [0 ..< 13]) demo13))
   \<and> sorted_wrt (\<lambda>a b. \<not> byDueDate b a)
        (sort_Slice rnd byDueDate
            (filterByStatus \<lparr>TaskFilter.Status = Some ''PENDING'', Page = 2, PageSize = 5\<rparr>
               (ListAll (map demo_uuid [0 ..< 13]) demo13)))
   \<and> ListTasks (sort_Slice rnd) (map demo_uuid [0 ..< 13])
        \<lparr>TaskFilter.Status = Some ''PENDING'', Page = 2, PageSize = 5\<rparr> demo13
       = Inr (map demo13_task [5, 0, 7, 8, 9])"
proof
  fix rnd
  let ?flt = "\<lparr>TaskFilter.Status = Some ''PENDING'', Page = 2, PageSize = 5\<rparr>"
  let ?ks = "map demo_uuid [0 ..< 13]"
  have kept: "filterByStatus ?flt (ListAll ?ks demo13) = map demo13_task [0 ..< 13]"
    by (simp add: ListAll_demo13 filterByStatus_def demo13_task_def)
  have full: "sort_Slice rnd byDueDate (filterByStatus ?flt (ListAll ?ks demo13))
      = map demo13_task [12, 6, 2, 3, 4, 5, 0, 7, 8, 9, 10, 11, 1]"
    by (simp only: kept sort_Slice_demo13)
  have m: "mset (sort_Slice rnd byDueDate (filterByStatus ?flt (ListAll ?ks demo13)))
      = mset (filterByStatus ?flt (ListAll ?ks demo13))"
    by (simp only: full) (simp add: kept demo13_tasks)
  have s: "sorted_wrt (\<lambda>a b. \<not> byDueDate b a)
      (sort_Slice rnd byDueDate (filterByStatus ?flt (ListAll ?ks demo13)))"
    unfolding full by (simp add: byDueDate_demo13)
  have l: "length (ListAll ?ks demo13) < 2 ^ 62" by (simp add: ListAll_demo13)
  have p1: "(2::int) = (if Page ?flt \<le> 0 then 1 else Page ?flt)" by simp
  have p2: "(5::int) = (if PageSize ?flt \<le> 0 then 10 else PageSize ?flt)" by simp
  have p3: "(2::int) < 2 ^ 63" by simp
  have p4: "(5::int) < 2 ^ 63" by simp
  have p5: "((2::int) - 1) * 5 < 2 ^ 63" by simp
  note r = ListTasks_sorted_by_due_date
         [where srt = "sort_Slice rnd" and flt = ?flt and ks = ?ks and w = demo13
            and page = 2 and sz = 5, OF m s p1 p2 p3 p4 p5 l, THEN conjunct1]
  have "ListTasks (sort_Slice rnd) ?ks ?flt demo13 = Inr (map demo13_task [5, 0, 7, 8, 9])"
    by (simp only: r full) simp
  with m s show "mset (sort_Slice rnd byDueDate (filterByStatus ?flt (ListAll ?ks demo13)))
       = mset (filterByStatus ?flt (ListAll ?ks demo13))
   \<and> sorted_wrt (\<lambda>a b. \<not> byDueDate b a)
        (sort_Slice rnd byDueDate (filterByStatus ?flt (ListAll ?ks demo13)))
   \<and> ListTasks (sort_Slice rnd) ?ks ?flt demo13 = Inr (map demo13_task [5, 0, 7, 8, 9])"
    by simp
qed

subsection \<open>C3: pagination\<close>

text \<open>
  Claim C3 says that for every filter \<^verbatim>\<open>ListTasks\<close> returns the window
  \<open>[(page-1)*pageSize, page*pageSize)\<close> of the sorted sequence, the empty sequence when
  the window starts at or beyond the end, and never fails on an out-of-range page.
  \<open>ListTasks_in_range\<close> and \<open>ListTasks_pagination_example\<close> above show this whenever
  \<open>(page-1)*pageSize\<close> fits in 63 bits, with the 25-task example. But the source
  multiplies without a check, and its own comment expects an empty result for a page out of
  range. With page 2147483649 and page size 4294967296 the product wraps to \<open>-2^63\<close>, the
  guard \<^verbatim>\<open>start >= len(tasks)\<close> does not fire and the slice expression panics, on any
  store. With page 4611686018427387905 and page size 4 the product wraps to 0 and the first
  page is returned, although the window starts far beyond the one task stored.
\<close>

theorem ListTasks_page_overflow:
  "ListTasks stable_sort_by []
      \<lparr>TaskFilter.Status = None, Page = 2147483649, PageSize = 4294967296\<rparr> NewInMemoryTaskRepository
     = Inl Panic
   \<and> ListTasks stable_sort_by [''task-'']
      \<lparr>TaskFilter.Status = None, Page = 4611686018427387905, PageSize = 4\<rparr> demo_store
     = Inr [demo_task\<lparr>ID := ''task-''\<rparr>]
   \<and> int (length (ListAll [''task-''] demo_store)) \<le> (4611686018427387905 - 1) * 4"
  by (simp add: ListTasks_def paginate_def wrap64_def Let_def ListAll_def List.map_filter_def
      filterByStatus_def NewInMemoryTaskRepository_def demo_store_def load_def)

subsection \<open>C4: validation order of CreateTask\<close>

text \<open>
  Claim C4. \<^verbatim>\<open>CreateTask\<close> checks its input in a fixed order and answers the first
  failed check with a fixed message: an empty title gives the validation error
  ``title is required''; otherwise a zero due date gives ``due_date is required''; otherwise
  a due date that is not strictly after the current time gives ``due_date must be in the
  future''; otherwise a supplied status outside PENDING, IN_PROGRESS, DONE gives
  ``invalid status''; otherwise the call succeeds and the task it returns and stores carries
  the input's fields, with status PENDING when none was supplied. A failed call leaves the
  world as it was. Every error built by \<^verbatim>\<open>NewValidationError\<close> is of the validation kind
  and carries its message unchanged.
\<close>

theorem CreateTask_validation:
  "(CreateTaskInput.Title input = '''' \<longrightarrow>
      CreateTask gen now input w = (Inl (Err (NewValidationError ''title is required'')), w))
   \<and> (CreateTaskInput.Title input \<noteq> '''' \<and> IsZero (CreateTaskInput.DueDate input) \<longrightarrow>
      CreateTask gen now input w = (Inl (Err (NewValidationError ''due_date is required'')), w))
   \<and> (CreateTaskInput.Title input \<noteq> '''' \<and> \<not> IsZero (CreateTaskInput.DueDate input)
        \<and> \<not> After (CreateTaskInput.DueDate input) now \<longrightarrow>
      CreateTask gen now input w = (Inl (Err (NewValidationError ''due_date must be in the future'')), w))
   \<and> (CreateTaskInput.Title input \<noteq> '''' \<and> \<not> IsZero (CreateTaskInput.DueDate input)
        \<and> After (CreateTaskInput.DueDate input) now
        \<and> (\<exists>s. CreateTaskInput.Status input = Some s \<and> s \<notin> {''PENDING'', ''IN_PROGRESS'', ''DONE''}) \<longrightarrow>
      CreateTask gen now input w = (Inl (Err (NewValidationError ''invalid status'')), w))
   \<and> (CreateTaskInput.Title input \<noteq> '''' \<and> \<not> IsZero (CreateTaskInput.DueDate input)
        \<and> After (CreateTaskInput.DueDate input) now
        \<and> (\<forall>s. CreateTaskInput.Status input = Some s \<longrightarrow> s \<in> {''PENDING'', ''IN_PROGRESS'', ''DONE''}) \<longrightarrow>
      (\<exists>task w'. CreateTask gen now input w = (Inr task, w')
         \<and> load task w' =
             Some \<lparr>ID = gen (uuid_calls w),
                   Title = CreateTaskInput.Title input,
                   Description = CreateTaskInput.Description input,
                   Status = (case CreateTaskInput.Status input of None \<Rightarrow> ''PENDING'' | Some s \<Rightarrow> s),
                   DueDate = CreateTaskInput.DueDate input\<rparr>
         \<and> stored w' (gen (uuid_calls w)) = load task w'))
   \<and> IsValidation (NewValidationError m) \<and> Message (NewValidationError m) = m"
  by (auto simp: CreateTask_def Create_def alloc_def assign_def load_def stored_def
      ErrTitleRequired_def ErrDueDateRequired_def ErrDueDatePast_def ErrStatusInvalid_def
      isValidStatus_def StatusPending_def StatusInProgress_def StatusDone_def Let_def
      NewValidationError_kind
      split: option.splits)

theorem CreateTask_validation_witness:
  "CreateTask demo_uuid 100
      \<lparr>CreateTaskInput.Title = '''', CreateTaskInput.Description = '''', CreateTaskInput.Status = None, CreateTaskInput.DueDate = 200\<rparr> NewInMemoryTaskRepository
     = (Inl (Err (NewValidationError ''title is required'')), NewInMemoryTaskRepository)
   \<and> CreateTask demo_uuid 100
      \<lparr>CreateTaskInput.Title = ''Report'', CreateTaskInput.Description = '''', CreateTaskInput.Status = None, CreateTaskInput.DueDate = 0\<rparr> NewInMemoryTaskRepository
     = (Inl (Err (NewValidationError ''due_date is required'')), NewInMemoryTaskRepository)
   \<and> CreateTask demo_uuid 100
      \<lparr>CreateTaskInput.Title = ''Report'', CreateTaskInput.Description = '''', CreateTaskInput.Status = None, CreateTaskInput.DueDate = 100\<rparr> NewInMemoryTaskRepository
     = (Inl (Err (NewValidationError ''due_date must be in the future'')), NewInMemoryTaskRepository)
   \<and> CreateTask demo_uuid 100
      \<lparr>CreateTaskInput.Title = ''Report'', CreateTaskInput.Description = '''', CreateTaskInput.Status = Some ''INVALID'', CreateTaskInput.DueDate = 200\<rparr> NewInMemoryTaskRepository
     = (Inl (Err (NewValidationError ''invalid status'')), NewInMemoryTaskRepository)
   \<and> (\<exists>task w'. CreateTask demo_uuid 100
      \<lparr>CreateTaskInput.Title = ''Report'', CreateTaskInput.Description = '''', CreateTaskInput.Status = None, CreateTaskInput.DueDate = 200\<rparr> NewInMemoryTaskRepository
         = (Inr task, w')
       \<and> load task w' = Some \<lparr>ID = ''task-'', Title = ''Report'', Description = '''',
                                Status = ''PENDING'', DueDate = 200\<rparr>)"
  using
    CreateTask_validation [of "\<lparr>CreateTaskInput.Title = '''', CreateTaskInput.Description = '''', CreateTaskInput.Status = None, CreateTaskInput.DueDate = 200\<rparr>"
      demo_uuid 100 NewInMemoryTaskRepository]
    CreateTask_validation [of "\<lparr>CreateTaskInput.Title = ''Report'', CreateTaskInput.Description = '''', CreateTaskInput.Status = None, CreateTaskInput.DueDate = 0\<rparr>"
      demo_uuid 100 NewInMemoryTaskRepository]
    CreateTask_validation [of "\<lparr>CreateTaskInput.Title = ''Report'', CreateTaskInput.Description = '''', CreateTaskInput.Status = None, CreateTaskInput.DueDate = 100\<rparr>"
      demo_uuid 100 NewInMemoryTaskRepository]
    CreateTask_validation [of "\<lparr>CreateTaskInput.Title = ''Report'', CreateTaskInput.Description = '''', CreateTaskInput.Status = Some ''INVALID'', CreateTaskInput.DueDate = 200\<rparr>"
      demo_uuid 100 NewInMemoryTaskRepository]
    CreateTask_validation [of "\<lparr>CreateTaskInput.Title = ''Report'', CreateTaskInput.Description = '''', CreateTaskInput.Status = None, CreateTaskInput.DueDate = 200\<rparr>"
      demo_uuid 100 NewInMemoryTaskRepository]
  by (simp add: IsZero_def After_def demo_uuid_def NewInMemoryTaskRepository_def) blast

subsection \<open>C5: invariant of stored tasks\<close>

text \<open>
  Claim C5. After every sequence of \<^verbatim>\<open>CreateTask\<close>, \<^verbatim>\<open>UpdateTask\<close> and
  \<^verbatim>\<open>DeleteTask\<close> calls on a new repository (each call at its own time, failing or not),
  every task the repository holds has a non-empty identifier, which is the key it is stored
  under, a non-empty title, a status among PENDING, IN_PROGRESS, DONE, and a non-zero due
  date. The identifier is non-empty because \<^verbatim>\<open>uuid.NewString()\<close> never returns the empty
  string, which is the hypothesis on \<open>gen\<close>.
\<close>

theorem stored_tasks_valid:
  assumes "\<forall>n. gen n \<noteq> ''''"
    and "stored (run gen cs NewInMemoryTaskRepository) k = Some t"
  shows "Task.ID t \<noteq> '''' \<and> Task.ID t = k \<and> Task.Title t \<noteq> ''''
       \<and> Task.Status t \<in> {''PENDING'', ''IN_PROGRESS'', ''DONE''}
       \<and> \<not> IsZero (Task.DueDate t)"
proof -
  have "store_inv (run gen cs NewInMemoryTaskRepository)"
    using store_inv_init assms(1) by (rule run_inv)
  from store_invD [OF this assms(2)] show ?thesis
    by (auto simp: task_valid_def isValidStatus_def StatusPending_def StatusInProgress_def
        StatusDone_def)
qed

theorem stored_tasks_valid_witness:
  "(\<forall>n. demo_uuid n \<noteq> '''')
   \<and> stored (run demo_uuid
        [CallCreateTask 100 \<lparr>CreateTaskInput.Title = ''Report'', CreateTaskInput.Description = '''',
                              CreateTaskInput.Status = None, CreateTaskInput.DueDate = 200\<rparr>,
         CallUpdateTask 100 ''task-'' \<lparr>Title = None, Description = None,
                              Status = Some ''IN_PROGRESS'', DueDate = None\<rparr>,
         CallDeleteTask ''missing'']
        NewInMemoryTaskRepository) ''task-''
      = Some \<lparr>ID = ''task-'', Title = ''Report'', Description = '''', Status = ''IN_PROGRESS'',
               DueDate = 200\<rparr>
   \<and> \<not> IsZero 200"
proof -
  let ?cs = "[CallCreateTask 100 \<lparr>CreateTaskInput.Title = ''Report'', CreateTaskInput.Description = '''',
                              CreateTaskInput.Status = None, CreateTaskInput.DueDate = 200\<rparr>,
         CallUpdateTask 100 ''task-'' \<lparr>Title = None, Description = None,
                              Status = Some ''IN_PROGRESS'', DueDate = None\<rparr>,
         CallDeleteTask ''missing'']"
  have ne: "\<forall>n. demo_uuid n \<noteq> ''''" by (simp add: demo_uuid_nonempty)
  have st: "stored (run demo_uuid ?cs NewInMemoryTaskRepository) ''task-''
      = Some \<lparr>ID = ''task-'', Title = ''Report'', Description = '''', Status = ''IN_PROGRESS'',
               DueDate = 200\<rparr>"
    by (simp only: run.simps exec.simps demo_run_step1 demo_run_step2 snd_conv)
       (simp add: DeleteTask_def Delete_def stored_def load_def)
  from stored_tasks_valid [OF ne st] ne st show ?thesis by simp
qed

subsection \<open>C6: identifiers are fresh\<close>

text \<open>
  Claim C6. For every sequence of \<^verbatim>\<open>Create\<close> calls on allocated task objects, no call
  fails, and the identifiers assigned are the next values of the generator, whatever
  identifiers the objects carried before: they are pairwise distinct, none of them was
  drawn before the sequence began, and each is a key of the store afterwards. That two
  draws never coincide is the contract of \<^verbatim>\<open>uuid.NewString()\<close>, the hypothesis \<open>inj gen\<close>.
\<close>

theorem Create_identifiers_distinct:
  assumes "inj gen" and "\<forall>task \<in> set ps. task < length (heap w)"
    and "Create_all gen ps w = (rs, w')"
  shows "(\<exists>ids. rs = map Inr ids \<and> length ids = length ps \<and> distinct ids
            \<and> set ids \<inter> gen ` {..< uuid_calls w} = {}
            \<and> set ids \<subseteq> dom (tasks w')
            \<and> ids = map gen [uuid_calls w ..< uuid_calls w + length ps])"
proof -
  let ?ns = "[uuid_calls w ..< uuid_calls w + length ps]"
  from Create_all_ids [OF assms(2,3)] have
    rs: "rs = map (\<lambda>n. Inr (gen n)) ?ns"
    and d: "gen ` {uuid_calls w ..< uuid_calls w + length ps} \<subseteq> dom (tasks w')"
    by blast+
  have 1: "rs = map Inr (map gen ?ns)" unfolding rs by (simp add: comp_def)
  have "inj_on gen (set ?ns)" using assms(1) by (rule inj_on_subset) simp
  then have 2: "distinct (map gen ?ns)" by (simp add: distinct_map)
  have 3: "set (map gen ?ns) \<inter> gen ` {..< uuid_calls w} = {}"
  proof (rule ccontr)
    assume "set (map gen ?ns) \<inter> gen ` {..< uuid_calls w} \<noteq> {}"
    then obtain m n where "gen m = gen n" "uuid_calls w \<le> m" "n < uuid_calls w" by auto
    with injD [OF assms(1)] show False by fastforce
  qed
  have 4: "set (map gen ?ns) \<subseteq> dom (tasks w')" using d by simp
  have 5: "length (map gen ?ns) = length ps" by simp
  from 1 2 3 4 5 show ?thesis by blast
qed

theorem Create_identifiers_distinct_witness:
  "inj demo_uuid
   \<and> 0 < length (heap demo_world2) \<and> 1 < length (heap demo_world2)
   \<and> (\<exists>w'. Create_all demo_uuid [0, 1] demo_world2 = ([Inr ''task-'', Inr ''task-i''], w'))
   \<and> ''task-'' \<noteq> ''task-i''"
proof -
  have b: "\<forall>task \<in> set [0, 1]. task < length (heap demo_world2)"
    by (simp add: demo_world2_def)
  obtain rs w' where c: "Create_all demo_uuid [0, 1] demo_world2 = (rs, w')" by fastforce
  from Create_identifiers_distinct [OF demo_uuid_inj b c]
  have "rs = map Inr (map demo_uuid [uuid_calls demo_world2 ..< uuid_calls demo_world2 + length [0::nat, 1]])"
    by blast
  then have "rs = [Inr ''task-'', Inr ''task-i'']"
    by (simp add: demo_world2_def demo_uuid_def)
  with c b demo_uuid_inj show ?thesis by simp
qed

subsection \<open>C7: not-found symmetry\<close>

text \<open>
  Claim C7. For an identifier that is not a key of the store, \<^verbatim>\<open>GetByID\<close>,
  \<^verbatim>\<open>Update\<close> (of a task carrying that identifier) and \<^verbatim>\<open>Delete\<close> each fail
  with the not-found error and change nothing, and the service's \<^verbatim>\<open>GetTask\<close>,
  \<^verbatim>\<open>UpdateTask\<close> and \<^verbatim>\<open>DeleteTask\<close> return exactly the repository's error; that
  error is recognised by \<^verbatim>\<open>IsNotFound\<close> and not by \<^verbatim>\<open>IsValidation\<close>.
\<close>

theorem not_found_symmetry:
  "tasks w ident = None \<Longrightarrow>
     GetByID ident w = (Inl (Err (NewNotFoundError ''task not found'')), w)
   \<and> (\<forall>task t. load task w = Some t \<and> Task.ID t = ident \<longrightarrow>
         Update task w = (Inl (Err (NewNotFoundError ''task not found'')), w))
   \<and> Delete ident w = (Inl (Err (NewNotFoundError ''task not found'')), w)
   \<and> GetTask ident w = GetByID ident w
   \<and> UpdateTask now ident input w = GetByID ident w
   \<and> DeleteTask ident w = Delete ident w
   \<and> IsNotFound (NewNotFoundError ''task not found'')
   \<and> \<not> IsValidation (NewNotFoundError ''task not found'')"
  by (simp add: GetByID_def Update_def Delete_def GetTask_def UpdateTask_def DeleteTask_def
      IsNotFound_def IsValidation_def NewNotFoundError_def ErrTypeNotFound_def ErrTypeValidation_def)

theorem not_found_symmetry_witness:
  "tasks demo_world '''' = None
   \<and> load 0 demo_world = Some demo_task \<and> Task.ID demo_task = ''''
   \<and> GetByID '''' demo_world = (Inl (Err (NewNotFoundError ''task not found'')), demo_world)
   \<and> Update 0 demo_world = (Inl (Err (NewNotFoundError ''task not found'')), demo_world)
   \<and> UpdateTask 0 '''' \<lparr>Title = Some ''x'', Description = None, Status = None, DueDate = None\<rparr> demo_world
       = (Inl (Err (NewNotFoundError ''task not found'')), demo_world)"
proof -
  have h: "tasks demo_world '''' = None" by (simp add: demo_world_def)
  have l: "load 0 demo_world = Some demo_task \<and> Task.ID demo_task = ''''"
    by (simp add: demo_world_def load_def demo_task_def)
  note th = not_found_symmetry [OF h, of 0 "\<lparr>Title = Some ''x'', Description = None, Status = None, DueDate = None\<rparr>"]
  from th l have "Update 0 demo_world = (Inl (Err (NewNotFoundError ''task not found'')), demo_world)"
    by blast
  with th h l show ?thesis by simp
qed

subsection \<open>C8: UpdateTask merges\<close>

text \<open>
  Claim C8. \<^verbatim>\<open>UpdateTask\<close> is a partial merge. \<open>merge_spec\<close> is the merge as the
  specification words it: the identifier is kept, and each of title, description, status and
  due date is the supplied value if one is supplied and the stored value otherwise. For a
  task stored under its own identifier and every input, \<^verbatim>\<open>UpdateTask\<close> checks the
  supplied fields in the order title, status, due date and answers the first check that
  fails: a supplied empty title gives the validation error ``title is required'', a supplied
  status outside PENDING, IN_PROGRESS, DONE gives ``invalid status'', a supplied zero due
  date gives ``due_date is required'', and a supplied due date that is not strictly after
  the current time gives ``due_date must be in the future''; after such a call every
  identifier reads as it did before. When no check fails (a supplied description is never
  checked, so it may be empty), \<^verbatim>\<open>UpdateTask\<close> succeeds, returns the merged task, a
  later \<^verbatim>\<open>GetByID\<close> returns exactly the merged task, whose identifier is unchanged, and
  no other identifier's record changes.
\<close>

theorem UpdateTask_partial_merge:
  assumes ok: "ptrs_ok w" and st: "stored w ident = Some t" and key: "Task.ID t = ident"
  shows "\<exists>r w'. UpdateTask now ident input w = (r, w') \<and>
     (if UpdateTaskInput.Title input = Some '''' then
        r = Inl (Err (NewValidationError ''title is required''))
        \<and> (\<forall>k. GetByID_value k w' = GetByID_value k w)
      else if (\<exists>s. UpdateTaskInput.Status input = Some s
                  \<and> s \<noteq> ''PENDING'' \<and> s \<noteq> ''IN_PROGRESS'' \<and> s \<noteq> ''DONE'') then
        r = Inl (Err (NewValidationError ''invalid status''))
        \<and> (\<forall>k. GetByID_value k w' = GetByID_value k w)
      else if (\<exists>d. UpdateTaskInput.DueDate input = Some d \<and> IsZero d) then
        r = Inl (Err (NewValidationError ''due_date is required''))
        \<and> (\<forall>k. GetByID_value k w' = GetByID_value k w)
      else if (\<exists>d. UpdateTaskInput.DueDate input = Some d \<and> \<not> After d now) then
        r = Inl (Err (NewValidationError ''due_date must be in the future''))
        \<and> (\<forall>k. GetByID_value k w' = GetByID_value k w)
      else
        (\<exists>task. r = Inr task
           \<and> load task w' = Some (merge_spec t input)
           \<and> GetByID_value ident w' = Some (merge_spec t input)
           \<and> Task.ID (merge_spec t input) = ident
           \<and> (\<forall>k. k \<noteq> ident \<longrightarrow> GetByID_value k w' = GetByID_value k w)))"
proof -
  let ?c1 = "UpdateTaskInput.Title input = Some ''''"
  let ?c2 = "\<exists>s. UpdateTaskInput.Status input = Some s
                  \<and> s \<noteq> ''PENDING'' \<and> s \<noteq> ''IN_PROGRESS'' \<and> s \<noteq> ''DONE''"
  let ?c3 = "\<exists>d. UpdateTaskInput.DueDate input = Some d \<and> IsZero d"
  let ?c4 = "\<exists>d. UpdateTaskInput.DueDate input = Some d \<and> \<not> After d now"
  consider (title) "?c1" | (status) "\<not> ?c1" "?c2" | (zero) "\<not> ?c1" "\<not> ?c2" "?c3"
    | (past) "\<not> ?c1" "\<not> ?c2" "\<not> ?c3" "?c4" | (valid) "\<not> ?c1" "\<not> ?c2" "\<not> ?c3" "\<not> ?c4"
    by blast
  then show ?thesis
  proof cases
    case title
    from UpdateTask_rejects [OF ok UpdateTask_title_empty [OF st title, where now = now]]
    show ?thesis by (simp only: eqTrueI [OF title] if_True) blast
  next
    case status
    from status(2) obtain s where s: "UpdateTaskInput.Status input = Some s"
      "s \<noteq> ''PENDING''" "s \<noteq> ''IN_PROGRESS''" "s \<noteq> ''DONE''" by blast
    from UpdateTask_rejects [OF ok UpdateTask_status_invalid [OF st status(1) s, where now = now]]
    show ?thesis by (simp only: status if_True if_False) blast
  next
    case zero
    from zero(3) obtain d where d: "UpdateTaskInput.DueDate input = Some d" "IsZero d" by blast
    from UpdateTask_rejects [OF ok UpdateTask_due_date_invalid(1) [OF st zero(1,2) d, where now = now]]
    show ?thesis by (simp only: zero if_True if_False) blast
  next
    case past
    from past(4) obtain d where d: "UpdateTaskInput.DueDate input = Some d" "\<not> After d now"
      by blast
    from past(3) d(1) have nz: "\<not> IsZero d" by blast
    from UpdateTask_rejects [OF ok UpdateTask_due_date_invalid(2) [OF st past(1,2) d(1) nz d(2)]]
    show ?thesis by (simp only: past if_True if_False) blast
  next
    case valid
    have v: "update_input_valid now input"
      using valid
      by (auto simp: update_input_valid_def isValidStatus_def StatusPending_def
          StatusInProgress_def StatusDone_def split: option.splits)
    from UpdateTask_valid_succeeds [OF ok st key v] obtain task w' where
      run: "UpdateTask now ident input w = (Inr task, w')" by blast
    from UpdateTask_success [OF ok run] st key have
      l: "load task w' = Some (merge_spec t input)"
      and s: "stored w' = (stored w)(ident \<mapsto> merge_spec t input)" and ok': "ptrs_ok w'"
      by auto
    have "GetByID_value k w' = ((stored w)(ident \<mapsto> merge_spec t input)) k" for k
      using ok' s by (simp add: GetByID_value_stored)
    moreover have "GetByID_value k w = stored w k" for k
      using ok by (simp add: GetByID_value_stored)
    moreover have "Task.ID (merge_spec t input) = ident"
      using key by (simp add: merge_spec_def)
    ultimately have "\<exists>r w'. UpdateTask now ident input w = (r, w') \<and>
        (\<exists>task. r = Inr task
           \<and> load task w' = Some (merge_spec t input)
           \<and> GetByID_value ident w' = Some (merge_spec t input)
           \<and> Task.ID (merge_spec t input) = ident
           \<and> (\<forall>k. k \<noteq> ident \<longrightarrow> GetByID_value k w' = GetByID_value k w))"
      using run l by auto
    then show ?thesis by (simp only: valid if_False)
  qed
qed

theorem UpdateTask_partial_merge_witness:
  "ptrs_ok demo_store \<and> stored demo_store ''task-'' = Some (demo_task\<lparr>ID := ''task-''\<rparr>)
   \<and> (\<exists>w'. UpdateTask 100 ''task-''
          \<lparr>Title = Some '''', Description = Some ''text'', Status = Some ''CLOSED'', DueDate = Some 0\<rparr>
          demo_store = (Inl (Err (NewValidationError ''title is required'')), w')
        \<and> GetByID_value ''task-'' w' = GetByID_value ''task-'' demo_store)
   \<and> (\<exists>w'. UpdateTask 100 ''task-''
          \<lparr>Title = Some ''New title'', Description = Some ''text'', Status = Some ''CLOSED'', DueDate = Some 0\<rparr>
          demo_store = (Inl (Err (NewValidationError ''invalid status'')), w')
        \<and> GetByID_value ''task-'' w' = GetByID_value ''task-'' demo_store)
   \<and> (\<exists>w'. UpdateTask 100 ''task-''
          \<lparr>Title = Some ''New title'', Description = Some ''text'', Status = Some ''DONE'', DueDate = Some 0\<rparr>
          demo_store = (Inl (Err (NewValidationError ''due_date is required'')), w')
        \<and> GetByID_value ''task-'' w' = GetByID_value ''task-'' demo_store)
   \<and> (\<exists>w'. UpdateTask 100 ''task-''
          \<lparr>Title = Some ''New title'', Description = Some ''text'', Status = Some ''DONE'', DueDate = Some 50\<rparr>
          demo_store = (Inl (Err (NewValidationError ''due_date must be in the future'')), w')
        \<and> GetByID_value ''task-'' w' = GetByID_value ''task-'' demo_store)
   \<and> (\<exists>w'. UpdateTask 100 ''task-''
          \<lparr>Title = None, Description = None, Status = None, DueDate = Some 100\<rparr>
          demo_store = (Inl (Err (NewValidationError ''due_date must be in the future'')), w')
        \<and> GetByID_value ''task-'' w' = GetByID_value ''task-'' demo_store)
   \<and> (\<exists>task w'. UpdateTask 100 ''task-''
          \<lparr>Title = Some ''New title'', Description = Some '''', Status = None, DueDate = None\<rparr>
          demo_store = (Inr task, w')
        \<and> GetByID_value ''task-'' w'
            = Some \<lparr>ID = ''task-'', Title = ''New title'', Description = '''',
                     Status = ''PENDING'', DueDate = 86400\<rparr>)
   \<and> GetByID_value ''task-'' demo_store
        = Some \<lparr>ID = ''task-'', Title = ''Original'', Description = '''',
                 Status = ''PENDING'', DueDate = 86400\<rparr>"
proof -
  have st: "stored demo_store ''task-'' = Some (demo_task\<lparr>ID := ''task-''\<rparr>)"
    by (simp add: stored_def demo_store_def load_def)
  have key: "Task.ID (demo_task\<lparr>ID := ''task-''\<rparr>) = ''task-''" by simp
  note inst = UpdateTask_partial_merge [OF ptrs_ok_demo_store st key, of 100]
  have m: "merge_spec (demo_task\<lparr>ID := ''task-''\<rparr>)
        \<lparr>Title = Some ''New title'', Description = Some '''', Status = None, DueDate = None\<rparr>
      = \<lparr>ID = ''task-'', Title = ''New title'', Description = '''',
          Status = ''PENDING'', DueDate = 86400\<rparr>"
    by (simp add: merge_spec_def demo_task_def)
  have g: "GetByID_value ''task-'' demo_store
        = Some \<lparr>ID = ''task-'', Title = ''Original'', Description = '''',
                 Status = ''PENDING'', DueDate = 86400\<rparr>"
    using st ptrs_ok_demo_store by (simp add: GetByID_value_stored demo_task_def)
  have 1: "\<exists>w'. UpdateTask 100 ''task-''
          \<lparr>Title = Some '''', Description = Some ''text'', Status = Some ''CLOSED'', DueDate = Some 0\<rparr>
          demo_store = (Inl (Err (NewValidationError ''title is required'')), w')
        \<and> GetByID_value ''task-'' w' = GetByID_value ''task-'' demo_store"
    using inst [of "\<lparr>Title = Some '''', Description = Some ''text'', Status = Some ''CLOSED'', DueDate = Some 0\<rparr>"]
    by (simp add: IsZero_def After_def) blast
  have 2: "\<exists>w'. UpdateTask 100 ''task-''
          \<lparr>Title = Some ''New title'', Description = Some ''text'', Status = Some ''CLOSED'', DueDate = Some 0\<rparr>
          demo_store = (Inl (Err (NewValidationError ''invalid status'')), w')
        \<and> GetByID_value ''task-'' w' = GetByID_value ''task-'' demo_store"
    using inst [of "\<lparr>Title = Some ''New title'', Description = Some ''text'', Status = Some ''CLOSED'', DueDate = Some 0\<rparr>"]
    by (simp add: IsZero_def After_def) blast
  have 3: "\<exists>w'. UpdateTask 100 ''task-''
          \<lparr>Title = Some ''New title'', Description = Some ''text'', Status = Some ''DONE'', DueDate = Some 0\<rparr>
          demo_store = (Inl (Err (NewValidationError ''due_date is required'')), w')
        \<and> GetByID_value ''task-'' w' = GetByID_value ''task-'' demo_store"
    using inst [of "\<lparr>Title = Some ''New title'', Description = Some ''text'', Status = Some ''DONE'', DueDate = Some 0\<rparr>"]
    by (simp add: IsZero_def After_def) blast
  have 4: "\<exists>w'. UpdateTask 100 ''task-''
          \<lparr>Title = Some ''New title'', Description = Some ''text'', Status = Some ''DONE'', DueDate = Some 50\<rparr>
          demo_store = (Inl (Err (NewValidationError ''due_date must be in the future'')), w')
        \<and> GetByID_value ''task-'' w' = GetByID_value ''task-'' demo_store"
    using inst [of "\<lparr>Title = Some ''New title'', Description = Some ''text'', Status = Some ''DONE'', DueDate = Some 50\<rparr>"]
    by (simp add: IsZero_def After_def) blast
  have 5: "\<exists>w'. UpdateTask 100 ''task-''
          \<lparr>Title = None, Description = None, Status = None, DueDate = Some 100\<rparr>
          demo_store = (Inl (Err (NewValidationError ''due_date must be in the future'')), w')
        \<and> GetByID_value ''task-'' w' = GetByID_value ''task-'' demo_store"
    using inst [of "\<lparr>Title = None, Description = None, Status = None, DueDate = Some 100\<rparr>"]
    by (simp add: IsZero_def After_def) blast
  have 6: "\<exists>task w'. UpdateTask 100 ''task-''
          \<lparr>Title = Some ''New title'', Description = Some '''', Status = None, DueDate = None\<rparr>
          demo_store = (Inr task, w')
        \<and> GetByID_value ''task-'' w'
            = Some \<lparr>ID = ''task-'', Title = ''New title'', Description = '''',
                     Status = ''PENDING'', DueDate = 86400\<rparr>"
    using inst [of "\<lparr>Title = Some ''New title'', Description = Some '''', Status = None, DueDate = None\<rparr>"]
    by (simp add: IsZero_def After_def m) blast
  from ptrs_ok_demo_store st 1 2 3 4 5 6 g show ?thesis by (intro conjI)
qed

subsection \<open>C9: round trip\<close>

text \<open>
  Claim C9. Round trip: \<^verbatim>\<open>Create\<close> of any task object succeeds, and \<^verbatim>\<open>GetByID\<close>
  with the identifier that \<^verbatim>\<open>Create\<close> wrote into the object returns a copy that has the
  newly drawn identifier and agrees with the original in title, description, status and due
  date.
\<close>

theorem Create_GetByID_round_trip:
  "load task w = Some t \<Longrightarrow>
     (\<exists>w1 copy w2 t'.
        Create gen task w = (Inr (), w1)
      \<and> load task w1 = Some t'
      \<and> GetByID (Task.ID t') w1 = (Inr copy, w2)
      \<and> load copy w2 = Some t'
      \<and> Task.ID t' = gen (uuid_calls w)
      \<and> Task.Title t' = Task.Title t
      \<and> Task.Description t' = Task.Description t
      \<and> Task.Status t' = Task.Status t
      \<and> Task.DueDate t' = Task.DueDate t)"
  by (auto simp: Create_def GetByID_def load_def assign_def alloc_def Let_def nth_append split: if_splits)

theorem Create_GetByID_round_trip_witness:
  "load 0 demo_world = Some demo_task
   \<and> (\<exists>w1 copy w2 t'.
        Create demo_uuid 0 demo_world = (Inr (), w1)
      \<and> GetByID ''task-'' w1 = (Inr copy, w2)
      \<and> load copy w2 = Some (demo_task\<lparr>ID := ''task-''\<rparr>))"
proof -
  have l: "load 0 demo_world = Some demo_task"
    by (simp add: demo_world_def load_def)
  from Create_GetByID_round_trip [OF l, of demo_uuid] obtain w1 copy w2 t' where
    *: "Create demo_uuid 0 demo_world = (Inr (), w1)" "load 0 w1 = Some t'"
       "GetByID (Task.ID t') w1 = (Inr copy, w2)" "load copy w2 = Some t'"
       "Task.ID t' = demo_uuid (uuid_calls demo_world)"
       "Task.Title t' = Task.Title demo_task" "Task.Description t' = Task.Description demo_task"
       "Task.Status t' = Task.Status demo_task" "Task.DueDate t' = Task.DueDate demo_task"
    by blast
  have "t' = demo_task\<lparr>ID := ''task-''\<rparr>"
    using *(5-9) by (simp add: demo_uuid_def demo_world_def)
  with * l show ?thesis by (auto simp: demo_uuid_def demo_world_def)
qed

subsection \<open>C10: UpdateTask is atomic on error\<close>

text \<open>
  Claim C10. \<^verbatim>\<open>UpdateTask\<close> is atomic on error: whenever it returns an error (the
  not-found error of \<^verbatim>\<open>GetByID\<close> or \<^verbatim>\<open>Update\<close>, or a validation error raised after
  earlier fields were already written to the working copy), the repository's map and every
  stored record are what they were before the call, and so is every value \<^verbatim>\<open>GetByID\<close>
  returns. Only the working copy, which the map never points to, has changed.
\<close>

theorem UpdateTask_atomic_on_error:
  "ptrs_ok w \<Longrightarrow> UpdateTask now ident input w = (Inl err, w') \<Longrightarrow>
     stored w' = stored w \<and> tasks w' = tasks w \<and> (\<forall>k. GetByID_value k w' = GetByID_value k w)"
proof -
  assume ok: "ptrs_ok w" and run: "UpdateTask now ident input w = (Inl err, w')"
  from UpdateTask_error [OF ok run] have
    "stored w' = stored w" "tasks w' = tasks w" "ptrs_ok w'" by simp_all
  with ok show ?thesis by (simp add: GetByID_value_stored)
qed

theorem UpdateTask_atomic_on_error_witness:
  "ptrs_ok demo_store
   \<and> (\<exists>w'. UpdateTask 100 ''task-''
              \<lparr>Title = Some ''New title'', Description = None, Status = Some ''INVALID'', DueDate = None\<rparr>
              demo_store
            = (Inl (Err (NewValidationError ''invalid status'')), w')
          \<and> heap w' \<noteq> heap demo_store
          \<and> stored w' = stored demo_store \<and> tasks w' = tasks demo_store)"
proof -
  let ?input = "\<lparr>Title = Some ''New title'', Description = None, Status = Some ''INVALID'', DueDate = None\<rparr>"
  obtain w' where run: "UpdateTask 100 ''task-'' ?input demo_store
      = (Inl (Err (NewValidationError ''invalid status'')), w')" and h: "heap w' \<noteq> heap demo_store"
    by (simp add: UpdateTask_def GetByID_def demo_store_def load_def alloc_def update_title_def
        update_description_def update_status_def isValidStatus_def StatusPending_def
        StatusInProgress_def StatusDone_def ErrStatusInvalid_def assign_def)
  from UpdateTask_atomic_on_error [OF ptrs_ok_demo_store run] run h ptrs_ok_demo_store
  show ?thesis by blast
qed

end
